theory Spec2Isabelle
  imports Main "HOL-Library.Monad_Syntax" "HOL-Library.Sublist"
begin

section \<open>Characters and the character classes of Python's re module\<close>

text \<open>
  A Python \<open>str\<close> is a sequence of code points. A line is modelled as a HOL
  \<open>string\<close>; each \<open>char\<close> stands for the code point of the same number, so the
  model covers the lines whose code points are below 256. The classes \<open>\d\<close>,
  \<open>\s\<close> and \<open>\w\<close> of a \<open>str\<close> pattern follow the Unicode database; on the code
  points below 256 they are the sets written out here.
\<close>

definition code :: "char \<Rightarrow> nat" where
  "code c = of_char c"

definition is_digit :: "char \<Rightarrow> bool" where
  "is_digit c = (48 \<le> code c \<and> code c \<le> 57)"

definition is_space :: "char \<Rightarrow> bool" where
  "is_space c =
     ((9 \<le> code c \<and> code c \<le> 13) \<or> (28 \<le> code c \<and> code c \<le> 32)
      \<or> code c = 133 \<or> code c = 160)"

definition is_word :: "char \<Rightarrow> bool" where
  "is_word c =
     ((48 \<le> code c \<and> code c \<le> 57) \<or> (65 \<le> code c \<and> code c \<le> 90)
      \<or> code c = 95 \<or> (97 \<le> code c \<and> code c \<le> 122)
      \<or> code c = 170 \<or> code c = 178 \<or> code c = 179 \<or> code c = 181
      \<or> code c = 185 \<or> code c = 186
      \<or> (188 \<le> code c \<and> code c \<le> 190)
      \<or> (192 \<le> code c \<and> code c \<le> 214) \<or> (216 \<le> code c \<and> code c \<le> 246)
      \<or> 248 \<le> code c)"

definition nl :: char where
  "nl = CHR 0x0A"

section \<open>A backtracking matcher for the patterns of parser.py\<close>

text \<open>
  The two patterns of parser.py use literals, \<open>.\<close>, the classes and bracket sets,
  the greedy repeats \<open>*\<close>, \<open>+\<close>, \<open>?\<close> and the lazy \<open>*?\<close> on single characters,
  capturing groups, \<open>^\<close> and \<open>$\<close>. A pattern is the list of its items in order; a
  group \<open>(...)\<close> is the pair of marks \<open>Open k\<close> and \<open>Close k\<close> around its items.
\<close>

datatype cset = Digit | Space | Word | Ch char

datatype atom = Lit char | Any | In "cset list" | NotIn "cset list"

datatype node =
    One atom | Star atom | Plus atom | Opt atom | LazyStar atom
  | Open nat | Close nat | Bol | Eol

fun cset_has :: "cset \<Rightarrow> char \<Rightarrow> bool" where
  "cset_has Digit c = is_digit c"
| "cset_has Space c = is_space c"
| "cset_has Word c = is_word c"
| "cset_has (Ch d) c = (c = d)"

fun amatch :: "atom \<Rightarrow> char \<Rightarrow> bool" where
  "amatch (Lit d) c = (c = d)"
| "amatch Any c = (c \<noteq> nl)"
| "amatch (In cs) c = list_ex (\<lambda>i. cset_has i c) cs"
| "amatch (NotIn cs) c = (\<not> list_ex (\<lambda>i. cset_has i c) cs)"

text \<open>
  The state of a match: where each group was opened (the subject text that was
  still unread at that moment) and the text each closed group captured.
\<close>

record mstate =
  opened :: "nat \<Rightarrow> string"
  groups :: "nat \<Rightarrow> string option"

definition init :: mstate where
  "init = \<lparr>opened = (\<lambda>_. []), groups = (\<lambda>_. None)\<rparr>"

text \<open>
  \<open>rx n ps s st\<close> matches the items \<open>ps\<close> at the unread text \<open>s\<close> of a subject of
  length \<open>n\<close>. It returns the first success of the backtracking search, with the
  text left unread: a greedy repeat tries the longer match first, a lazy one the
  shorter; \<open>.\<close> matches anything but a newline; \<open>^\<close> matches at the start of the
  subject; \<open>$\<close> at its end and before a newline that ends it.
\<close>

fun rx :: "nat \<Rightarrow> node list \<Rightarrow> string \<Rightarrow> mstate \<Rightarrow> (string \<times> mstate) option" where
  "rx n [] s st = Some (s, st)"
| "rx n (One a # ps) [] st = None"
| "rx n (One a # ps) (c # t) st = (if amatch a c then rx n ps t st else None)"
| "rx n (Opt a # ps) [] st = rx n ps [] st"
| "rx n (Opt a # ps) (c # t) st =
     (if amatch a c
      then (case rx n ps t st of Some r \<Rightarrow> Some r | None \<Rightarrow> rx n ps (c # t) st)
      else rx n ps (c # t) st)"
| "rx n (Star a # ps) [] st = rx n ps [] st"
| "rx n (Star a # ps) (c # t) st =
     (if amatch a c
      then (case rx n (Star a # ps) t st of Some r \<Rightarrow> Some r | None \<Rightarrow> rx n ps (c # t) st)
      else rx n ps (c # t) st)"
| "rx n (Plus a # ps) [] st = None"
| "rx n (Plus a # ps) (c # t) st = (if amatch a c then rx n (Star a # ps) t st else None)"
| "rx n (LazyStar a # ps) [] st = rx n ps [] st"
| "rx n (LazyStar a # ps) (c # t) st =
     (case rx n ps (c # t) st of
        Some r \<Rightarrow> Some r
      | None \<Rightarrow> (if amatch a c then rx n (LazyStar a # ps) t st else None))"
| "rx n (Open k # ps) s st = rx n ps s (st\<lparr>opened := (opened st)(k := s)\<rparr>)"
| "rx n (Close k # ps) s st =
     rx n ps s
       (st\<lparr>groups := (groups st)(k \<mapsto> take (length (opened st k) - length s) (opened st k))\<rparr>)"
| "rx n (Bol # ps) s st = (if length s = n then rx n ps s st else None)"
| "rx n (Eol # ps) s st = (if s = [] \<or> s = [nl] then rx n ps s st else None)"

text \<open>\<open>pattern.match(s)\<close>: a match that starts at the beginning of \<open>s\<close>.\<close>

definition rx_match :: "node list \<Rightarrow> string \<Rightarrow> mstate option" where
  "rx_match ps s = map_option snd (rx (length s) ps s init)"

text \<open>\<open>m.group(k)\<close>; \<open>None\<close> is Python's None for a group that took no part.\<close>

definition group :: "mstate \<Rightarrow> nat \<Rightarrow> string option" where
  "group m k = groups m k"

definition lits :: "string \<Rightarrow> node list" where
  "lits l = map (\<lambda>c. One (Lit c)) l"

definition grp :: "nat \<Rightarrow> node list \<Rightarrow> node list" where
  "grp k ps = Open k # ps @ [Close k]"

section \<open>The two patterns\<close>

definition line_regex :: "node list" where
  "line_regex =
     [Bol, Star (In [Space])]
     @ grp 1 [Plus (In [Digit])] @ lits '':''
     @ grp 2 [Plus (In [Digit, Ch CHR ''.''])] @ lits '':''
     @ grp 3 [Plus (In [Word])] @ lits '':''
     @ grp 4 [Plus (In [Word])] @ lits '':''
     @ [Star (In [Space])] @ grp 5 [Plus (NotIn [Space, Ch CHR '':''])]
     @ [Star (In [Space])] @ lits '':'' @ [Star (In [Space])]
     @ grp 6 [Plus (In [Digit])] @ lits '':'' @ [Star (In [Space])]
     @ lits ''<'' @ grp 7 [Plus (In [Digit])] @ lits '':''
     @ grp 8 [Plus (NotIn [Ch CHR ''>''])] @ lits ''>,<''
     @ grp 9 [Plus (In [Digit])] @ lits '',''
     @ grp 10 [Plus (NotIn [Ch CHR ''>''])] @ lits ''>,<''
     @ grp 11 [Plus (In [Digit])] @ lits ''>'' @ [Star (In [Space])]
     @ lits ''<Rx Good/Bad,Percent'' @ [Plus (In [Space])]
     @ grp 12 [Plus (In [Digit])] @ lits ''/'' @ [Plus (In [Space])]
     @ grp 13 [Plus (In [Digit])] @ lits '','' @ [Plus (In [Space])]
     @ grp 14 [Plus (In [Digit, Ch CHR ''.''])] @ lits ''%>''
     @ [LazyStar Any] @ lits ''per channel'' @ [Star (In [Space])]
     @ grp 15 [Star Any] @ [Eol]"

definition channel_regex :: "node list" where
  "channel_regex =
     lits ''<'' @ grp 1 [Plus (In [Digit])] @ lits '':'' @ [Star (In [Space])]
     @ grp 2 [Plus (In [Digit])] @ lits ''/''
     @ grp 3 [Opt (Lit CHR ''-''), Plus (In [Digit])] @ lits ''/''
     @ grp 4 [Plus (In [Digit])] @ lits ''/''
     @ grp 5 [Plus (In [Digit])] @ lits '',''
     @ grp 6 [Plus (In [Digit])] @ lits ''/''
     @ grp 7 [Plus (In [Digit])] @ lits ''>''"

section \<open>findall\<close>

text \<open>
  \<open>pattern.findall(s)\<close> for a pattern with seven groups: the matches are searched
  from left to right, each search starting where the previous match ended, and
  each match gives the tuple of its groups, a group that took no part giving the
  empty string. After a match that read nothing the search moves on by one
  character; the channel pattern starts with a literal and never matches so.
\<close>

type_synonym tuple7 = "string \<times> string \<times> string \<times> string \<times> string \<times> string \<times> string"

definition gtext :: "mstate \<Rightarrow> nat \<Rightarrow> string" where
  "gtext m k = (case groups m k of None \<Rightarrow> [] | Some t \<Rightarrow> t)"

definition tuple_of :: "mstate \<Rightarrow> tuple7" where
  "tuple_of m = (gtext m 1, gtext m 2, gtext m 3, gtext m 4, gtext m 5, gtext m 6, gtext m 7)"

function scan :: "nat \<Rightarrow> node list \<Rightarrow> string \<Rightarrow> tuple7 list" where
  "scan n ps s =
     (case rx n ps s init of
        Some (rest, m) \<Rightarrow>
          tuple_of m #
            (if length rest < length s then scan n ps rest
             else (case s of [] \<Rightarrow> [] | _ # t \<Rightarrow> scan n ps t))
      | None \<Rightarrow> (case s of [] \<Rightarrow> [] | _ # t \<Rightarrow> scan n ps t))"
  by pat_completeness auto
termination
  by (relation "measure (\<lambda>(n, ps, s). length s)") auto

definition findall :: "node list \<Rightarrow> string \<Rightarrow> tuple7 list" where
  "findall ps s = scan (length s) ps s"

section \<open>parse_cnu_line\<close>

record channel =
  bandIndex :: string
  rxBitsPerSym :: string
  rxPower :: string
  rxSnr :: string
  rxPhyRate :: string
  txBitsPerSym :: string
  txPhyRate :: string

record parsed =
  timestamp :: string
  trace_level :: string
  module :: string
  function_name :: string
  source_line :: string
  moca_port :: string
  moca_port_dev :: string
  cnu_id :: string
  cnu_mac :: string
  source_type :: string
  rx_good :: string
  rx_bad :: string
  rx_bad_percent :: string
  channels :: "channel list"

text \<open>\<open>str.strip()\<close>: whitespace removed at both ends.\<close>

definition strip :: "string \<Rightarrow> string" where
  "strip s = rev (dropWhile is_space (rev (dropWhile is_space s)))"

fun ch_data :: "tuple7 \<Rightarrow> channel" where
  "ch_data (bandIndex', rxBits, rxPower', rxSnr', rxPhyRate', txBits, txPhyRate') =
     \<lparr>bandIndex = bandIndex', rxBitsPerSym = rxBits, rxPower = rxPower', rxSnr = rxSnr',
      rxPhyRate = rxPhyRate', txBitsPerSym = txBits, txPhyRate = txPhyRate'\<rparr>"

text \<open>
  The function of parser.py. A group that took no part in the match would be
  None and \<open>.strip()\<close> on it would raise; the option monad ends the computation
  there. Every group of \<open>line_regex\<close> takes part in every match.
\<close>

definition parse_cnu_line :: "string \<Rightarrow> parsed option" where
  "parse_cnu_line line =
     (case rx_match line_regex line of
        None \<Rightarrow> None
      | Some m \<Rightarrow> do {
          ignored_identifier \<leftarrow> group m 1;
          linux_timestamp \<leftarrow> group m 2;
          trace_level' \<leftarrow> group m 3;
          module' \<leftarrow> group m 4;
          function' \<leftarrow> group m 5;
          source_line' \<leftarrow> group m 6;
          moca_port' \<leftarrow> group m 7;
          moca_port_dev' \<leftarrow> map_option strip (group m 8);
          cnu_id' \<leftarrow> group m 9;
          cnu_mac' \<leftarrow> map_option strip (group m 10);
          source_type' \<leftarrow> group m 11;
          rx_good' \<leftarrow> group m 12;
          rx_bad' \<leftarrow> group m 13;
          rx_bad_percent' \<leftarrow> group m 14;
          channel_part \<leftarrow> group m 15;
          Some \<lparr>timestamp = linux_timestamp, trace_level = trace_level',
                module = module', function_name = function',
                source_line = source_line', moca_port = moca_port',
                moca_port_dev = moca_port_dev', cnu_id = cnu_id', cnu_mac = cnu_mac',
                source_type = source_type', rx_good = rx_good', rx_bad = rx_bad',
                rx_bad_percent = rx_bad_percent',
                channels = map ch_data (findall channel_regex channel_part)\<rparr>
        })"

section \<open>main: the driving loop and the report\<close>

definition divider :: string where
  "divider = ''---------------------------------------------------\<newline>''"

definition channel_line :: "channel \<Rightarrow> string" where
  "channel_line ch =
     ''  BandIndex: '' @ bandIndex ch @ '' | ''
     @ ''RX bits/sym: '' @ rxBitsPerSym ch @ '' | ''
     @ ''Power: '' @ rxPower ch @ '' dBm? | ''
     @ ''SNR: '' @ rxSnr ch @ '' dB | ''
     @ ''RX PHY: '' @ rxPhyRate ch @ '' Mbps | ''
     @ ''TX bits/sym: '' @ txBitsPerSym ch @ '' | ''
     @ ''TX PHY: '' @ txPhyRate ch @ '' Mbps\<newline>''"

definition source_str :: "parsed \<Rightarrow> string" where
  "source_str p = (if source_type p = ''0'' then ''Micronode'' else ''CNU'')"

text \<open>The writes of one matched line, one element for each call of \<open>out_f.write\<close>.\<close>

definition render :: "parsed \<Rightarrow> string list" where
  "render p =
     [divider,
      ''Timestamp:  '' @ timestamp p @ ''\<newline>'',
      ''Level:      '' @ trace_level p @ ''\<newline>'',
      ''Module:     '' @ module p @ ''\<newline>'',
      ''Function:   '' @ function_name p @ ''\<newline>'',
      ''Line:       '' @ source_line p @ ''\<newline>'',
      ''MoCA Port:  '' @ moca_port p @ '' ('' @ moca_port_dev p @ '')\<newline>'',
      ''CNU ID:     '' @ cnu_id p @ ''\<newline>'',
      ''CNU MAC:    '' @ cnu_mac p @ ''\<newline>'',
      ''Source:     '' @ source_str p @ ''\<newline>'',
      ''Rx Good:    '' @ rx_good p @ ''\<newline>'',
      ''Rx Bad:     '' @ rx_bad p @ ''\<newline>'',
      ''Rx % Bad:   '' @ rx_bad_percent p @ ''\<newline>'',
      ''Channel Stats:\<newline>'']
     @ map channel_line (channels p)
     @ [divider]"

text \<open>\<open>line.rstrip("\n")\<close>\<close>

definition rstrip_nl :: "string \<Rightarrow> string" where
  "rstrip_nl s = rev (dropWhile (\<lambda>c. c = nl) (rev s))"

text \<open>
  The loop over the lines of the input file, in the order the file yields them.
  The state is the list of writes made so far and \<open>no_match_lines\<close>.
\<close>

fun main_loop :: "string list \<Rightarrow> string list \<times> string list \<Rightarrow> string list \<times> string list" where
  "main_loop [] (out, no_match_lines) = (out, no_match_lines)"
| "main_loop (raw # rest) (out, no_match_lines) =
     (let line = rstrip_nl raw in
      case parse_cnu_line line of
        None \<Rightarrow> main_loop rest (out, no_match_lines @ [line])
      | Some parsed \<Rightarrow> main_loop rest (out @ render parsed, no_match_lines))"

definition debug_header :: string where
  "debug_header = ''\<newline>=== DEBUG MODE: NO MATCH LINES ===\<newline>''"

definition no_match_line :: "string \<Rightarrow> string" where
  "no_match_line nm = ''NO MATCH: '' @ nm @ ''\<newline>''"

text \<open>
  \<open>main\<close> with the debug flag and the lines of the input file; the result is the
  sequence of writes to the output, which is the same for a file and for stdout.
\<close>

definition main :: "bool \<Rightarrow> string list \<Rightarrow> string list" where
  "main debug lines =
     (case main_loop lines ([], []) of
        (out, no_match_lines) \<Rightarrow>
          if debug \<and> no_match_lines \<noteq> []
          then out @ [debug_header] @ map no_match_line no_match_lines
          else out)"

section \<open>The grammar of a matching line\<close>

text \<open>
  The line grammar that \<open>line_regex\<close> and \<open>channel_regex\<close> describe, written as
  the text of a line built from its pieces. \<open>header_in\<close> holds the pieces of the line
  up to the marker \<open>per channel\<close>: the fields, and the whitespace runs and the free
  text between them. \<open>header_ok\<close> says that each piece is of the class the pattern
  asks for; the whitespace runs after \<open>/\<close> and \<open>,\<close> of the Rx tag are left free
  there, since the statements below differ on them.
\<close>

record header_in =
  i_lead :: string
  i_ident :: string
  i_timestamp :: string
  i_level :: string
  i_module :: string
  i_ws_function :: string
  i_function :: string
  i_ws_colon :: string
  i_ws_line :: string
  i_line :: string
  i_ws_port :: string
  i_port :: string
  i_dev :: string
  i_cnu_id :: string
  i_mac :: string
  i_source_type :: string
  i_ws_rx :: string
  i_ws_good :: string
  i_good :: string
  i_ws_bad :: string
  i_bad :: string
  i_ws_percent :: string
  i_percent :: string
  i_text :: string

definition header_text :: "header_in \<Rightarrow> string" where
  "header_text h =
     i_lead h @ i_ident h @ '':'' @ i_timestamp h @ '':'' @ i_level h @ '':''
     @ i_module h @ '':'' @ i_ws_function h @ i_function h @ i_ws_colon h @ '':''
     @ i_ws_line h @ i_line h @ '':'' @ i_ws_port h
     @ ''<'' @ i_port h @ '':'' @ i_dev h @ ''>,<'' @ i_cnu_id h @ '','' @ i_mac h
     @ ''>,<'' @ i_source_type h @ ''>'' @ i_ws_rx h
     @ ''<Rx Good/Bad,Percent'' @ i_ws_good h @ i_good h @ ''/'' @ i_ws_bad h
     @ i_bad h @ '','' @ i_ws_percent h @ i_percent h @ ''%>''"

definition spaces :: "string \<Rightarrow> bool" where
  "spaces s = list_all is_space s"

definition digits :: "string \<Rightarrow> bool" where
  "digits s = (s \<noteq> [] \<and> list_all is_digit s)"

definition dotted :: "string \<Rightarrow> bool" where
  "dotted s = (s \<noteq> [] \<and> list_all (\<lambda>c. is_digit c \<or> c = CHR ''.'') s)"

definition wordtok :: "string \<Rightarrow> bool" where
  "wordtok s = (s \<noteq> [] \<and> list_all is_word s)"

definition functok :: "string \<Rightarrow> bool" where
  "functok s = (s \<noteq> [] \<and> list_all (\<lambda>c. \<not> is_space c \<and> c \<noteq> CHR '':'') s)"

definition inner :: "string \<Rightarrow> bool" where
  "inner s = (s \<noteq> [] \<and> list_all (\<lambda>c. c \<noteq> CHR ''>'') s)"

definition header_ok :: "header_in \<Rightarrow> bool" where
  "header_ok h =
     (spaces (i_lead h) \<and> digits (i_ident h) \<and> dotted (i_timestamp h)
      \<and> wordtok (i_level h) \<and> wordtok (i_module h)
      \<and> spaces (i_ws_function h) \<and> functok (i_function h) \<and> spaces (i_ws_colon h)
      \<and> spaces (i_ws_line h) \<and> digits (i_line h) \<and> spaces (i_ws_port h)
      \<and> digits (i_port h) \<and> inner (i_dev h) \<and> digits (i_cnu_id h) \<and> inner (i_mac h)
      \<and> digits (i_source_type h) \<and> spaces (i_ws_rx h)
      \<and> i_ws_good h \<noteq> [] \<and> spaces (i_ws_good h) \<and> digits (i_good h)
      \<and> spaces (i_ws_bad h) \<and> digits (i_bad h)
      \<and> spaces (i_ws_percent h) \<and> dotted (i_percent h))"

text \<open>
  The free text before the marker: no newline, and the marker does not start
  inside it, so that its first occurrence is the one the line puts after the text.
\<close>

definition marker :: string where
  "marker = ''per channel''"

definition text_ok :: "string \<Rightarrow> bool" where
  "text_ok t =
     (list_all (\<lambda>c. c \<noteq> nl) t
      \<and> list_all (\<lambda>i. \<not> prefix marker (drop i (t @ marker))) [0..<length t])"

text \<open>A line of the grammar: the header, the free text, the marker, the segment.\<close>

definition grammar_line :: "header_in \<Rightarrow> string \<Rightarrow> string" where
  "grammar_line h seg = header_text h @ i_text h @ ''per channel'' @ seg"

text \<open>The record that a line of the grammar is to give, with the channels \<open>chs\<close>.\<close>

definition record_of :: "header_in \<Rightarrow> channel list \<Rightarrow> parsed" where
  "record_of h chs =
     \<lparr>timestamp = i_timestamp h, trace_level = i_level h, module = i_module h,
      function_name = i_function h, source_line = i_line h, moca_port = i_port h,
      moca_port_dev = strip (i_dev h), cnu_id = i_cnu_id h, cnu_mac = strip (i_mac h),
      source_type = i_source_type h, rx_good = i_good h, rx_bad = i_bad h,
      rx_bad_percent = i_percent h, channels = chs\<rparr>"

text \<open>
  The pieces of a channel group and the text that follows it. The whitespace after
  the \<open>:\<close> holds no newline; the text between groups holds no \<open><\<close> and no
  newline. \<open>segment sep cs\<close> is the channel-data segment with the text \<open>sep\<close> and
  then the groups \<open>cs\<close> in order.
\<close>

record channel_in =
  c_band :: string
  c_ws :: string
  c_rx_bits :: string
  c_power :: string
  c_snr :: string
  c_rx_phy :: string
  c_tx_bits :: string
  c_tx_phy :: string
  c_after :: string

definition chan_text :: "channel_in \<Rightarrow> string" where
  "chan_text c =
     ''<'' @ c_band c @ '':'' @ c_ws c @ c_rx_bits c @ ''/'' @ c_power c @ ''/''
     @ c_snr c @ ''/'' @ c_rx_phy c @ '','' @ c_tx_bits c @ ''/'' @ c_tx_phy c @ ''>''"

fun signed :: "string \<Rightarrow> bool" where
  "signed [] = False"
| "signed (c # d) = (if c = CHR ''-'' then digits d else digits (c # d))"

definition between :: "string \<Rightarrow> bool" where
  "between s = list_all (\<lambda>c. c \<noteq> CHR ''<'' \<and> c \<noteq> nl) s"

definition chan_ok :: "channel_in \<Rightarrow> bool" where
  "chan_ok c =
     (digits (c_band c) \<and> spaces (c_ws c) \<and> nl \<notin> set (c_ws c) \<and> digits (c_rx_bits c)
      \<and> signed (c_power c) \<and> digits (c_snr c) \<and> digits (c_rx_phy c)
      \<and> digits (c_tx_bits c) \<and> digits (c_tx_phy c) \<and> between (c_after c))"

definition channel_of :: "channel_in \<Rightarrow> channel" where
  "channel_of c =
     \<lparr>bandIndex = c_band c, rxBitsPerSym = c_rx_bits c, rxPower = c_power c,
      rxSnr = c_snr c, rxPhyRate = c_rx_phy c, txBitsPerSym = c_tx_bits c,
      txPhyRate = c_tx_phy c\<rparr>"

definition segment :: "string \<Rightarrow> channel_in list \<Rightarrow> string" where
  "segment sep cs = sep @ concat (map (\<lambda>c. chan_text c @ c_after c) cs)"

definition tuple_in :: "channel_in \<Rightarrow> tuple7" where
  "tuple_in c = (c_band c, c_rx_bits c, c_power c, c_snr c, c_rx_phy c, c_tx_bits c, c_tx_phy c)"

text \<open>The records of the matching lines and the rejected lines, in input order.\<close>

definition matched :: "string list \<Rightarrow> parsed list" where
  "matched lines = List.map_filter parse_cnu_line (map rstrip_nl lines)"

definition rejected :: "string list \<Rightarrow> string list" where
  "rejected lines = filter (\<lambda>l. parse_cnu_line l = None) (map rstrip_nl lines)"

section \<open>Example lines, and a line with one character removed\<close>

text \<open>The example line of the specification, with \<open>:\<close> after the CNU id.\<close>

definition spec_example :: string where
  "spec_example = ''12:1699999999.123:INFO:moca:handleCnuStats:45: <2:eth0>,<7:AA:BB:CC:DD:EE:FF>,<1> <Rx Good/Bad,Percent 100/ 2, 1.96%> blah per channel <0:4/-3/30/100,4/200><1:5/2/28/90,3/180>''"

text \<open>The same line with \<open>,\<close> after the CNU id, as \<open>line_regex\<close> asks.\<close>

definition comma_example :: string where
  "comma_example = ''12:1699999999.123:INFO:moca:handleCnuStats:45: <2:eth0>,<7,AA:BB:CC:DD:EE:FF>,<1> <Rx Good/Bad,Percent 100/ 2, 1.96%> blah per channel <0:4/-3/30/100,4/200><1:5/2/28/90,3/180>''"

text \<open>A short matching line with the given source type and no channel group.\<close>

definition short_line :: "string \<Rightarrow> string" where
  "short_line st = ''1:2.5:L:M:f:3:<4:d>,<5,m>,<'' @ st @ ''> <Rx Good/Bad,Percent 6/ 7, 8.9%>per channel''"

text \<open>The pieces of \<open>comma_example\<close> up to the marker, and its two channel groups.\<close>

definition example_header :: header_in where
  "example_header =
     \<lparr>i_lead = '''', i_ident = ''12'', i_timestamp = ''1699999999.123'', i_level = ''INFO'',
      i_module = ''moca'', i_ws_function = '''', i_function = ''handleCnuStats'',
      i_ws_colon = '''', i_ws_line = '''', i_line = ''45'', i_ws_port = '' '',
      i_port = ''2'', i_dev = ''eth0'', i_cnu_id = ''7'', i_mac = ''AA:BB:CC:DD:EE:FF'',
      i_source_type = ''1'', i_ws_rx = '' '', i_ws_good = '' '', i_good = ''100'',
      i_ws_bad = '' '', i_bad = ''2'', i_ws_percent = '' '', i_percent = ''1.96'',
      i_text = '' blah ''\<rparr>"

definition example_channels :: "channel_in list" where
  "example_channels =
     [\<lparr>c_band = ''0'', c_ws = '''', c_rx_bits = ''4'', c_power = ''-3'', c_snr = ''30'',
       c_rx_phy = ''100'', c_tx_bits = ''4'', c_tx_phy = ''200'', c_after = ''''\<rparr>,
      \<lparr>c_band = ''1'', c_ws = '''', c_rx_bits = ''5'', c_power = ''2'', c_snr = ''28'',
       c_rx_phy = ''90'', c_tx_bits = ''3'', c_tx_phy = ''180'', c_after = ''''\<rparr>]"

text \<open>A line with one character removed.\<close>

definition remove_char :: "nat \<Rightarrow> string \<Rightarrow> string" where
  "remove_char i s = take i s @ drop (Suc i) s"

text \<open>
  The text of a line of the grammar up to each fixed delimiter of the header, so
  that the length of the text is the position of the delimiter in the line.
  \<open>literal_positions\<close> are the positions of the six field colons, of \<open><\<close> before
  the port, of \<open>>,<\<close> after the device name and after the MAC, of \<open>>\<close> after the
  source type, of the twenty characters of the Rx tag, of \<open>/\<close>, of \<open>,\<close> after the
  bad count and of \<open>%\<close>. \<open>loose_positions\<close> are those of the other fixed
  characters: \<open>:\<close> after the port, \<open>,\<close> after the CNU id, \<open>>\<close> of \<open>%>\<close> and
  the eleven characters of the marker.
\<close>

definition pre_ident :: "header_in \<Rightarrow> string" where
  "pre_ident h = i_lead h @ i_ident h"

definition pre_timestamp :: "header_in \<Rightarrow> string" where
  "pre_timestamp h = pre_ident h @ '':'' @ i_timestamp h"

definition pre_level :: "header_in \<Rightarrow> string" where
  "pre_level h = pre_timestamp h @ '':'' @ i_level h"

definition pre_module :: "header_in \<Rightarrow> string" where
  "pre_module h = pre_level h @ '':'' @ i_module h"

definition pre_function :: "header_in \<Rightarrow> string" where
  "pre_function h = pre_module h @ '':'' @ i_ws_function h @ i_function h @ i_ws_colon h"

definition pre_line :: "header_in \<Rightarrow> string" where
  "pre_line h = pre_function h @ '':'' @ i_ws_line h @ i_line h"

definition pre_port :: "header_in \<Rightarrow> string" where
  "pre_port h = pre_line h @ '':'' @ i_ws_port h"

definition pre_port_colon :: "header_in \<Rightarrow> string" where
  "pre_port_colon h = pre_port h @ ''<'' @ i_port h"

definition pre_dev :: "header_in \<Rightarrow> string" where
  "pre_dev h = pre_port_colon h @ '':'' @ i_dev h"

definition pre_cnu_id :: "header_in \<Rightarrow> string" where
  "pre_cnu_id h = pre_dev h @ ''>,<'' @ i_cnu_id h"

definition pre_mac :: "header_in \<Rightarrow> string" where
  "pre_mac h = pre_cnu_id h @ '','' @ i_mac h"

definition pre_source_type :: "header_in \<Rightarrow> string" where
  "pre_source_type h = pre_mac h @ ''>,<'' @ i_source_type h"

definition pre_rx :: "header_in \<Rightarrow> string" where
  "pre_rx h = pre_source_type h @ ''>'' @ i_ws_rx h"

definition pre_good :: "header_in \<Rightarrow> string" where
  "pre_good h = pre_rx h @ ''<Rx Good/Bad,Percent'' @ i_ws_good h @ i_good h"

definition pre_bad :: "header_in \<Rightarrow> string" where
  "pre_bad h = pre_good h @ ''/'' @ i_ws_bad h @ i_bad h"

definition pre_percent :: "header_in \<Rightarrow> string" where
  "pre_percent h = pre_bad h @ '','' @ i_ws_percent h @ i_percent h"

definition literal_positions :: "header_in \<Rightarrow> nat list" where
  "literal_positions h =
     [length (pre_ident h), length (pre_timestamp h), length (pre_level h),
      length (pre_module h), length (pre_function h), length (pre_line h),
      length (pre_port h),
      length (pre_dev h), length (pre_dev h) + 1, length (pre_dev h) + 2,
      length (pre_mac h), length (pre_mac h) + 1, length (pre_mac h) + 2,
      length (pre_source_type h)]
     @ map (\<lambda>j. length (pre_rx h) + j) [0..<20]
     @ [length (pre_good h), length (pre_bad h), length (pre_percent h)]"

definition loose_positions :: "header_in \<Rightarrow> nat list" where
  "loose_positions h =
     [length (pre_port_colon h), length (pre_cnu_id h), length (pre_percent h) + 1]
     @ map (\<lambda>j. length (header_text h @ i_text h) + j) [0..<11]"


text \<open>The position of the \<open>:\<close> after the module field in a line of the grammar.\<close>

definition module_colon :: "header_in \<Rightarrow> nat" where
  "module_colon h =
     length (i_lead h @ i_ident h @ '':'' @ i_timestamp h @ '':'' @ i_level h @ '':'' @ i_module h)"

text \<open>
  The pieces of \<open>comma_example\<close> with whitespace around the device name, and with
  no whitespace after \<open>/\<close> and \<open>,\<close> of the Rx tag.
\<close>

definition spaced_header :: header_in where
  "spaced_header = example_header\<lparr>i_dev := '' eth0 ''\<rparr>"

definition tight_header :: header_in where
  "tight_header = example_header\<lparr>i_ws_bad := '''', i_ws_percent := ''''\<rparr>"

text \<open>A channel group with a negative rxPower.\<close>

definition minus5_channel :: channel_in where
  "minus5_channel =
     \<lparr>c_band = ''0'', c_ws = '''', c_rx_bits = ''4'', c_power = ''-5'', c_snr = ''30'',
      c_rx_phy = ''100'', c_tx_bits = ''4'', c_tx_phy = ''200'', c_after = ''''\<rparr>"

text \<open>
  A line of the grammar whose device name holds \<open>:\<close>, whose MAC holds \<open>,\<close>,
  whose free text starts with \<open>>\<close> and whose segment holds the marker again.
\<close>

definition loose_header :: header_in where
  "loose_header =
     \<lparr>i_lead = '''', i_ident = ''1'', i_timestamp = ''2.5'', i_level = ''L'',
      i_module = ''M'', i_ws_function = '''', i_function = ''f'',
      i_ws_colon = '''', i_ws_line = '''', i_line = ''3'', i_ws_port = '''',
      i_port = ''4'', i_dev = ''5:d'', i_cnu_id = ''5'', i_mac = ''6,m'',
      i_source_type = ''1'', i_ws_rx = '' '', i_ws_good = '' '', i_good = ''6'',
      i_ws_bad = '' '', i_bad = ''7'', i_ws_percent = '' '', i_percent = ''8.9'',
      i_text = ''>''\<rparr>"

definition loose_line :: string where
  "loose_line = ''1:2.5:L:M:f:3:<4:5:d>,<5,6,m>,<1> <Rx Good/Bad,Percent 6/ 7, 8.9%>>per channelper channel''"


section \<open>Auxiliary notions for the proofs\<close>

text \<open>
  \<open>rejects a ps\<close>: the items \<open>ps\<close> fail on every text that starts with a character
  of \<open>a\<close>. A repeat of \<open>a\<close> followed by such items has one way to match only: the
  longest run. \<open>run a xs r\<close>: \<open>xs\<close> is such a longest run before \<open>r\<close>.
\<close>

definition rejects :: "atom \<Rightarrow> node list \<Rightarrow> bool" where
  "rejects a ps = (\<forall>n c t st. amatch a c \<longrightarrow> rx n ps (c # t) st = None)"

definition disj :: "atom \<Rightarrow> atom \<Rightarrow> bool" where
  "disj a b = (\<forall>c. amatch a c \<longrightarrow> \<not> amatch b c)"

definition captured :: "nat \<Rightarrow> string \<Rightarrow> string \<Rightarrow> mstate \<Rightarrow> mstate" where
  "captured k s0 t st = st\<lparr>opened := (opened st)(k := s0), groups := (groups st)(k \<mapsto> t)\<rparr>"

definition run :: "atom \<Rightarrow> string \<Rightarrow> string \<Rightarrow> bool" where
  "run a xs r = ((\<forall>c\<in>set xs. amatch a c) \<and> (r = [] \<or> \<not> amatch a (hd r)))"

definition head_items :: "node list" where
  "head_items =
     [Star (In [Space])]
     @ grp 1 [Plus (In [Digit])] @ lits '':''
     @ grp 2 [Plus (In [Digit, Ch CHR ''.''])] @ lits '':''
     @ grp 3 [Plus (In [Word])] @ lits '':''
     @ grp 4 [Plus (In [Word])] @ lits '':''
     @ [Star (In [Space])] @ grp 5 [Plus (NotIn [Space, Ch CHR '':''])]
     @ [Star (In [Space])] @ lits '':'' @ [Star (In [Space])]
     @ grp 6 [Plus (In [Digit])] @ lits '':'' @ [Star (In [Space])]
     @ lits ''<'' @ grp 7 [Plus (In [Digit])] @ lits '':''
     @ grp 8 [Plus (NotIn [Ch CHR ''>''])] @ lits ''>,<''
     @ grp 9 [Plus (In [Digit])] @ lits '',''
     @ grp 10 [Plus (NotIn [Ch CHR ''>''])] @ lits ''>,<''
     @ grp 11 [Plus (In [Digit])] @ lits ''>'' @ [Star (In [Space])]
     @ lits ''<Rx Good/Bad,Percent'' @ [Plus (In [Space])]
     @ grp 12 [Plus (In [Digit])] @ lits ''/'' @ [Plus (In [Space])]
     @ grp 13 [Plus (In [Digit])] @ lits '','' @ [Plus (In [Space])]
     @ grp 14 [Plus (In [Digit, Ch CHR ''.''])] @ lits ''%>''"

definition tail_items :: "node list" where
  "tail_items =
     [LazyStar Any] @ lits ''per channel'' @ [Star (In [Space])]
     @ grp 15 [Star Any] @ [Eol]"

declare scan.simps [simp del]

text \<open>The items of \<open>head_items\<close> before and after the module group.\<close>

definition head_pre :: "node list" where
  "head_pre =
     [Star (In [Space])]
     @ grp 1 [Plus (In [Digit])] @ lits '':''
     @ grp 2 [Plus (In [Digit, Ch CHR ''.''])] @ lits '':''
     @ grp 3 [Plus (In [Word])] @ lits '':''"

definition head_post :: "node list" where
  "head_post =
     [Star (In [Space])] @ grp 5 [Plus (NotIn [Space, Ch CHR '':''])]
     @ [Star (In [Space])] @ lits '':'' @ [Star (In [Space])]
     @ grp 6 [Plus (In [Digit])] @ lits '':'' @ [Star (In [Space])]
     @ lits ''<'' @ grp 7 [Plus (In [Digit])] @ lits '':''
     @ grp 8 [Plus (NotIn [Ch CHR ''>''])] @ lits ''>,<''
     @ grp 9 [Plus (In [Digit])] @ lits '',''
     @ grp 10 [Plus (NotIn [Ch CHR ''>''])] @ lits ''>,<''
     @ grp 11 [Plus (In [Digit])] @ lits ''>'' @ [Star (In [Space])]
     @ lits ''<Rx Good/Bad,Percent'' @ [Plus (In [Space])]
     @ grp 12 [Plus (In [Digit])] @ lits ''/'' @ [Plus (In [Space])]
     @ grp 13 [Plus (In [Digit])] @ lits '','' @ [Plus (In [Space])]
     @ grp 14 [Plus (In [Digit, Ch CHR ''.''])] @ lits ''%>''"

text \<open>
  The items of \<open>head_items\<close> up to the colon after the source line and from
  there on, the Rx tag, and the text of a line after each fixed delimiter.
\<close>

definition head_colons :: "node list" where
  "head_colons =
     [Star (In [Space])]
     @ grp 1 [Plus (In [Digit])] @ lits '':''
     @ grp 2 [Plus (In [Digit, Ch CHR ''.''])] @ lits '':''
     @ grp 3 [Plus (In [Word])] @ lits '':''
     @ grp 4 [Plus (In [Word])] @ lits '':''
     @ [Star (In [Space])] @ grp 5 [Plus (NotIn [Space, Ch CHR '':''])]
     @ [Star (In [Space])] @ lits '':'' @ [Star (In [Space])]
     @ grp 6 [Plus (In [Digit])] @ lits '':''"

definition head_brackets :: "node list" where
  "head_brackets =
     [Star (In [Space])]
     @ lits ''<'' @ grp 7 [Plus (In [Digit])] @ lits '':''
     @ grp 8 [Plus (NotIn [Ch CHR ''>''])] @ lits ''>,<''
     @ grp 9 [Plus (In [Digit])] @ lits '',''
     @ grp 10 [Plus (NotIn [Ch CHR ''>''])] @ lits ''>,<''
     @ grp 11 [Plus (In [Digit])] @ lits ''>'' @ [Star (In [Space])]
     @ lits ''<Rx Good/Bad,Percent'' @ [Plus (In [Space])]
     @ grp 12 [Plus (In [Digit])] @ lits ''/'' @ [Plus (In [Space])]
     @ grp 13 [Plus (In [Digit])] @ lits '','' @ [Plus (In [Space])]
     @ grp 14 [Plus (In [Digit, Ch CHR ''.''])] @ lits ''%>''"

definition rx_tag :: string where
  "rx_tag = ''<Rx Good/Bad,Percent''"

definition head_br1 :: "node list" where
  "head_br1 =
     [Star (In [Space])]
     @ lits ''<'' @ grp 7 [Plus (In [Digit])] @ lits '':''
     @ grp 8 [Plus (NotIn [Ch CHR ''>''])] @ lits ''>,<''
     @ grp 9 [Plus (In [Digit])] @ lits '',''
     @ grp 10 [Plus (NotIn [Ch CHR ''>''])] @ lits ''>,<''
     @ grp 11 [Plus (In [Digit])] @ lits ''>''"

definition head_br2 :: "node list" where
  "head_br2 =
     [Plus (In [Space])]
     @ grp 12 [Plus (In [Digit])] @ lits ''/'' @ [Plus (In [Space])]
     @ grp 13 [Plus (In [Digit])] @ lits '','' @ [Plus (In [Space])]
     @ grp 14 [Plus (In [Digit, Ch CHR ''.''])] @ lits ''%>''"

definition rest_percent :: "header_in \<Rightarrow> string \<Rightarrow> string" where
  "rest_percent h seg = ''>'' @ i_text h @ ''per channel'' @ seg"

definition rest_bad :: "header_in \<Rightarrow> string \<Rightarrow> string" where
  "rest_bad h seg = i_ws_percent h @ i_percent h @ ''%'' @ rest_percent h seg"

definition rest_good :: "header_in \<Rightarrow> string \<Rightarrow> string" where
  "rest_good h seg = i_ws_bad h @ i_bad h @ '','' @ rest_bad h seg"

definition rest_rx :: "header_in \<Rightarrow> string \<Rightarrow> string" where
  "rest_rx h seg = i_ws_good h @ i_good h @ ''/'' @ rest_good h seg"

definition rest_source_type :: "header_in \<Rightarrow> string \<Rightarrow> string" where
  "rest_source_type h seg = i_ws_rx h @ rx_tag @ rest_rx h seg"

definition rest_mac :: "header_in \<Rightarrow> string \<Rightarrow> string" where
  "rest_mac h seg = i_source_type h @ ''>'' @ rest_source_type h seg"

definition rest_cnu_id :: "header_in \<Rightarrow> string \<Rightarrow> string" where
  "rest_cnu_id h seg = i_mac h @ ''>,<'' @ rest_mac h seg"

definition rest_dev :: "header_in \<Rightarrow> string \<Rightarrow> string" where
  "rest_dev h seg = i_cnu_id h @ '','' @ rest_cnu_id h seg"

definition rest_port_colon :: "header_in \<Rightarrow> string \<Rightarrow> string" where
  "rest_port_colon h seg = i_dev h @ ''>,<'' @ rest_dev h seg"

definition rest_port :: "header_in \<Rightarrow> string \<Rightarrow> string" where
  "rest_port h seg = i_port h @ '':'' @ rest_port_colon h seg"

definition rest_line :: "header_in \<Rightarrow> string \<Rightarrow> string" where
  "rest_line h seg = i_ws_port h @ ''<'' @ rest_port h seg"

definition rest_function :: "header_in \<Rightarrow> string \<Rightarrow> string" where
  "rest_function h seg = i_ws_line h @ i_line h @ '':'' @ rest_line h seg"

definition rest_module :: "header_in \<Rightarrow> string \<Rightarrow> string" where
  "rest_module h seg =
     i_ws_function h @ i_function h @ i_ws_colon h @ '':'' @ rest_function h seg"

definition rest_level :: "header_in \<Rightarrow> string \<Rightarrow> string" where
  "rest_level h seg = i_module h @ '':'' @ rest_module h seg"

definition rest_timestamp :: "header_in \<Rightarrow> string \<Rightarrow> string" where
  "rest_timestamp h seg = i_level h @ '':'' @ rest_level h seg"

definition rest_ident :: "header_in \<Rightarrow> string \<Rightarrow> string" where
  "rest_ident h seg = i_timestamp h @ '':'' @ rest_timestamp h seg"


section \<open>Character classes\<close>

lemma digit_not_space: "is_digit c \<Longrightarrow> \<not> is_space c"
  by (auto simp: is_digit_def is_space_def)

lemma digit_is_word: "is_digit c \<Longrightarrow> is_word c"
  by (auto simp: is_digit_def is_word_def)

lemma space_not_word: "is_space c \<Longrightarrow> \<not> is_word c"
  by (auto simp: is_space_def is_word_def)

section \<open>Repeats with one way to match\<close>

lemma rejects_One: "disj a b \<Longrightarrow> rejects a (One b # ps)"
  by (simp add: rejects_def disj_def)

lemma rejects_Plus: "disj a b \<Longrightarrow> rejects a (Plus b # ps)"
  by (simp add: rejects_def disj_def)

lemma rejects_Star: "disj a b \<Longrightarrow> rejects a ps \<Longrightarrow> rejects a (Star b # ps)"
  by (simp add: rejects_def disj_def)

lemma rejects_Open: "rejects a ps \<Longrightarrow> rejects a (Open k # ps)"
  by (simp add: rejects_def)

lemma rejects_Close: "rejects a ps \<Longrightarrow> rejects a (Close k # ps)"
  by (simp add: rejects_def)

lemma opt_case_id: "(case x of None \<Rightarrow> None | Some r \<Rightarrow> Some r) = x"
  by (cases x) simp_all

lemma star_det:
  "rejects a ps \<Longrightarrow> rx n (Star a # ps) s st = rx n ps (dropWhile (amatch a) s) st"
proof (induction s)
  case Nil
  then show ?case by simp
next
  case (Cons c t)
  show ?case
  proof (cases "amatch a c")
    case True
    with Cons.prems have "rx n ps (c # t) st = None"
      by (simp add: rejects_def)
    with True Cons show ?thesis
      by (simp add: opt_case_id split: option.splits)
  next
    case False
    then show ?thesis by simp
  qed
qed

lemma plus_det:
  "rejects a ps \<Longrightarrow>
   rx n (Plus a # ps) s st =
     (if takeWhile (amatch a) s = [] then None else rx n ps (dropWhile (amatch a) s) st)"
  by (cases s) (simp_all add: star_det)

lemma take_minus_dropWhile:
  "take (length s - length (dropWhile P s)) s = takeWhile P s"
proof -
  have "length s = length (takeWhile P s) + length (dropWhile P s)"
    by (metis length_append takeWhile_dropWhile_id)
  then have "length s - length (dropWhile P s) = length (takeWhile P s)"
    by simp
  then show ?thesis
    by (metis append_eq_conv_conj takeWhile_dropWhile_id)
qed

lemma grp_plus_det:
  "rejects a ps \<Longrightarrow>
   rx n (Open k # Plus a # Close k # ps) s st =
     (if takeWhile (amatch a) s = [] then None
      else rx n ps (dropWhile (amatch a) s) (captured k s (takeWhile (amatch a) s) st))"
  by (simp add: plus_det rejects_Close take_minus_dropWhile captured_def)

lemma star_first:
  "rx n ps (dropWhile (amatch a) s) st = Some r \<Longrightarrow> rx n (Star a # ps) s st = Some r"
  by (induction s) (auto split: if_splits)

lemma run_split:
  assumes "run a xs r"
  shows "takeWhile (amatch a) (xs @ r) = xs" "dropWhile (amatch a) (xs @ r) = r"
proof -
  from assms have all: "\<And>x. x \<in> set xs \<Longrightarrow> amatch a x" and r: "r = [] \<or> \<not> amatch a (hd r)"
    by (auto simp: run_def)
  have "takeWhile (amatch a) (xs @ r) = xs @ takeWhile (amatch a) r"
    using all by (rule takeWhile_append2)
  moreover have "takeWhile (amatch a) r = []"
    using r by (cases r) auto
  ultimately show "takeWhile (amatch a) (xs @ r) = xs" by simp
  have "dropWhile (amatch a) (xs @ r) = dropWhile (amatch a) r"
    using all by (rule dropWhile_append2)
  moreover have "dropWhile (amatch a) r = r"
    using r by (cases r) auto
  ultimately show "dropWhile (amatch a) (xs @ r) = r" by simp
qed

lemma star_run:
  "rejects a ps \<Longrightarrow> run a xs r \<Longrightarrow> rx n (Star a # ps) (xs @ r) st = rx n ps r st"
  by (simp add: star_det run_split)

lemma plus_run:
  "rejects a ps \<Longrightarrow> run a xs r \<Longrightarrow>
   rx n (Plus a # ps) (xs @ r) st = (if xs = [] then None else rx n ps r st)"
  by (simp add: plus_det run_split)

lemma grp_run:
  "rejects a ps \<Longrightarrow> run a xs r \<Longrightarrow>
   rx n (Open k # Plus a # Close k # ps) (xs @ r) st =
     (if xs = [] then None else rx n ps r (captured k (xs @ r) xs st))"
  by (simp only: grp_plus_det run_split)

lemma run_Cons: "\<forall>c\<in>set xs. amatch a c \<Longrightarrow> \<not> amatch a c' \<Longrightarrow> run a xs (c' # r)"
  by (simp add: run_def)

lemma run_app:
  "\<forall>c\<in>set xs. amatch a c \<Longrightarrow> ys \<noteq> [] \<Longrightarrow> \<forall>c\<in>set ys. \<not> amatch a c \<Longrightarrow> run a xs (ys @ r)"
  by (cases ys) (auto simp: run_def)

lemma disj_simps:
  "disj (In [Space]) (In [Digit])"
  "disj (In [Space]) (In [Digit, Ch CHR ''.''])"
  "disj (In [Space]) (NotIn [Space, Ch CHR '':''])"
  "disj (In [Space]) (Lit CHR '':'')"
  "disj (In [Space]) (Lit CHR ''<'')"
  "disj (In [Digit]) (Lit CHR '':'')"
  "disj (In [Digit]) (Lit CHR '','')"
  "disj (In [Digit]) (Lit CHR ''>'')"
  "disj (In [Digit]) (Lit CHR ''/'')"
  "disj (In [Digit, Ch CHR ''.'']) (Lit CHR '':'')"
  "disj (In [Digit, Ch CHR ''.'']) (Lit CHR ''%'')"
  "disj (In [Word]) (Lit CHR '':'')"
  "disj (NotIn [Space, Ch CHR '':'']) (In [Space])"
  "disj (NotIn [Space, Ch CHR '':'']) (Lit CHR '':'')"
  "disj (NotIn [Ch CHR ''>'']) (Lit CHR ''>'')"
  by (auto simp: disj_def is_digit_def is_space_def is_word_def code_def)

lemma chr_facts:
  "\<not> is_digit CHR '':''" "\<not> is_word CHR '':''" "\<not> is_space CHR '':''"
  "\<not> is_digit CHR '',''" "\<not> is_digit CHR ''>''" "\<not> is_digit CHR ''/''" "\<not> is_digit CHR ''%''"
  "\<not> is_space CHR ''<''" "\<not> is_digit CHR ''.''" "\<not> is_space CHR ''.''"
  by (simp_all add: is_digit_def is_word_def is_space_def code_def)

lemmas rej = rejects_One rejects_Plus rejects_Star rejects_Open rejects_Close disj_simps

lemma run_app_Cons:
  "\<forall>c\<in>set xs. amatch a c \<Longrightarrow> \<forall>c\<in>set ys. \<not> amatch a c \<Longrightarrow> \<not> amatch a c' \<Longrightarrow>
   run a xs (ys @ c' # r)"
  by (cases ys) (auto simp: run_def)

lemma plus_none:
  "ys \<noteq> [] \<Longrightarrow> \<forall>c\<in>set ys. \<not> amatch a c \<Longrightarrow> rx n (Plus a # ps) (ys @ r) st = None"
  by (cases ys) auto

section \<open>The header of a line\<close>

lemma line_regex_split: "line_regex = Bol # head_items @ tail_items"
  by (simp add: line_regex_def head_items_def tail_items_def)

lemma header_ok_D:
  assumes "header_ok h"
  shows "\<forall>c\<in>set (i_lead h). is_space c"
    "i_ident h \<noteq> []" "\<forall>c\<in>set (i_ident h). is_digit c"
    "i_timestamp h \<noteq> []" "\<forall>c\<in>set (i_timestamp h). is_digit c \<or> c = CHR ''.''"
    "i_level h \<noteq> []" "\<forall>c\<in>set (i_level h). is_word c"
    "i_module h \<noteq> []" "\<forall>c\<in>set (i_module h). is_word c"
    "\<forall>c\<in>set (i_ws_function h). is_space c"
    "i_function h \<noteq> []" "\<forall>c\<in>set (i_function h). \<not> is_space c \<and> c \<noteq> CHR '':''"
    "\<forall>c\<in>set (i_ws_colon h). is_space c"
    "\<forall>c\<in>set (i_ws_line h). is_space c"
    "i_line h \<noteq> []" "\<forall>c\<in>set (i_line h). is_digit c"
    "\<forall>c\<in>set (i_ws_port h). is_space c"
    "i_port h \<noteq> []" "\<forall>c\<in>set (i_port h). is_digit c"
    "i_dev h \<noteq> []" "\<forall>c\<in>set (i_dev h). c \<noteq> CHR ''>''"
    "i_cnu_id h \<noteq> []" "\<forall>c\<in>set (i_cnu_id h). is_digit c"
    "i_mac h \<noteq> []" "\<forall>c\<in>set (i_mac h). c \<noteq> CHR ''>''"
    "i_source_type h \<noteq> []" "\<forall>c\<in>set (i_source_type h). is_digit c"
    "\<forall>c\<in>set (i_ws_rx h). is_space c"
    "i_ws_good h \<noteq> []" "\<forall>c\<in>set (i_ws_good h). is_space c"
    "i_good h \<noteq> []" "\<forall>c\<in>set (i_good h). is_digit c"
    "\<forall>c\<in>set (i_ws_bad h). is_space c"
    "i_bad h \<noteq> []" "\<forall>c\<in>set (i_bad h). is_digit c"
    "\<forall>c\<in>set (i_ws_percent h). is_space c"
    "i_percent h \<noteq> []" "\<forall>c\<in>set (i_percent h). is_digit c \<or> c = CHR ''.''"
    "\<forall>c\<in>set (i_ident h). \<not> is_space c"
    "\<forall>c\<in>set (i_line h). \<not> is_space c"
    "\<forall>c\<in>set (i_good h). \<not> is_space c"
    "\<forall>c\<in>set (i_bad h). \<not> is_space c"
    "\<forall>c\<in>set (i_percent h). \<not> is_space c"
  using assms
  by (auto simp add: header_ok_def spaces_def digits_def dotted_def wordtok_def functok_def
      inner_def list_all_iff digit_not_space chr_facts)

lemmas head_simps = rx.simps(1,2,3,14,15) head_items_def header_text_def grp_def lits_def
      grp_run star_run plus_run plus_none rej run_Cons run_app run_app_Cons chr_facts

lemma head_reject:
  assumes "header_ok h" and "i_ws_bad h = [] \<or> i_ws_percent h = []"
  shows "rx n (head_items @ ps) (header_text h @ r) st = None"
proof (cases "i_ws_bad h = []")
  case True
  with header_ok_D[OF assms(1)] show ?thesis
    by (simp del: rx.simps add: head_simps)
next
  case False
  with assms(2) have "i_ws_percent h = []" by simp
  with header_ok_D[OF assms(1)] show ?thesis
    by (simp del: rx.simps add: head_simps)
qed

lemma head_match:
  assumes "header_ok h" and "i_ws_bad h \<noteq> []" and "i_ws_percent h \<noteq> []"
  shows "\<exists>st'. rx n (head_items @ ps) (header_text h @ r) st = rx n ps r st'
           \<and> groups st' = (groups st)
                (1 \<mapsto> i_ident h, 2 \<mapsto> i_timestamp h, 3 \<mapsto> i_level h, 4 \<mapsto> i_module h,
                 5 \<mapsto> i_function h, 6 \<mapsto> i_line h, 7 \<mapsto> i_port h, 8 \<mapsto> i_dev h,
                 9 \<mapsto> i_cnu_id h, 10 \<mapsto> i_mac h, 11 \<mapsto> i_source_type h,
                 12 \<mapsto> i_good h, 13 \<mapsto> i_bad h, 14 \<mapsto> i_percent h)"
  apply (rule exI)
  apply (rule conjI)
  using header_ok_D[OF assms(1)] assms(2,3)
   apply (simp del: rx.simps add: head_simps)
  apply (simp add: captured_def)
  done

section \<open>The marker and the end of the line\<close>

lemma lits_prefix:
  "rx n (lits l @ ps) s st = (if prefix l s then rx n ps (drop (length l) s) st else None)"
proof (induction l arbitrary: s)
  case Nil
  then show ?case by (simp add: lits_def)
next
  case (Cons c l)
  then show ?case by (cases s) (auto simp: lits_def)
qed

lemma lazy_skip:
  assumes "\<forall>c\<in>set junk. amatch a c"
    and "\<forall>i<length junk. rx n ps (drop i (junk @ s)) st = None"
  shows "rx n (LazyStar a # ps) (junk @ s) st = rx n (LazyStar a # ps) s st"
  using assms
proof (induction junk)
  case Nil
  then show ?case by simp
next
  case (Cons c junk)
  from Cons.prems(2) have here: "rx n ps (c # junk @ s) st = None"
    by (metis append_Cons drop0 length_greater_0_conv list.distinct(1))
  have "\<forall>i<length junk. rx n ps (drop i (junk @ s)) st = None"
  proof (intro allI impI)
    fix i assume "i < length junk"
    then have "Suc i < length (c # junk)" by simp
    with Cons.prems(2) have "rx n ps (drop (Suc i) ((c # junk) @ s)) st = None" by blast
    then show "rx n ps (drop i (junk @ s)) st = None" by simp
  qed
  with Cons have "rx n (LazyStar a # ps) (junk @ s) st = rx n (LazyStar a # ps) s st"
    by simp
  with here Cons.prems(1) show ?case by simp
qed

lemma lazy_here:
  "rx n ps s st = Some r \<Longrightarrow> rx n (LazyStar a # ps) s st = Some r"
  by (cases s) simp_all

lemma amatch_space: "amatch (In [Space]) = is_space"
  by (rule ext) simp

lemma dropWhile_any: "nl \<notin> set s \<Longrightarrow> dropWhile (amatch Any) s = []"
  by (induction s) auto

lemma set_dropWhile_subset: "set (dropWhile P s) \<subseteq> set s"
  by (induction s) auto

lemma tail_end:
  assumes "nl \<notin> set s"
  shows "rx n (Star (In [Space]) # Open 15 # Star Any # Close 15 # [Eol]) s st =
         Some ([], captured 15 (dropWhile is_space s) (dropWhile is_space s) st)"
proof -
  let ?t = "dropWhile is_space s"
  from assms have t: "nl \<notin> set ?t"
    using set_dropWhile_subset[of is_space s] by blast
  have "rx n (Star Any # Close 15 # [Eol]) ?t (st\<lparr>opened := (opened st)(15 := ?t)\<rparr>) =
        Some ([], captured 15 ?t ?t st)"
    by (rule star_first) (simp add: dropWhile_any[OF t] captured_def)
  then have "rx n (Open 15 # Star Any # Close 15 # [Eol]) ?t st = Some ([], captured 15 ?t ?t st)"
    by simp
  then show ?thesis
    by (intro star_first) (simp add: amatch_space)
qed

lemma prefix_short:
  "length m \<le> length x \<Longrightarrow> prefix m (x @ y) = prefix m x"
  by (metis prefix_append prefix_length_le prefix_order.eq_iff append.right_neutral
      prefix_length_prefix prefix_prefix length_append le_add1)

lemma tail_match:
  assumes "text_ok t" and "nl \<notin> set seg"
  shows "rx n tail_items (t @ ''per channel'' @ seg) st =
         Some ([], captured 15 (dropWhile is_space seg) (dropWhile is_space seg) st)"
proof -
  let ?ps = "lits marker @ Star (In [Space]) # Open 15 # Star Any # Close 15 # [Eol]"
  have items: "tail_items = LazyStar Any # ?ps"
    by (simp add: tail_items_def marker_def grp_def)
  from assms(1) have any: "\<forall>c\<in>set t. amatch Any c"
    by (simp add: text_ok_def list_all_iff)
  have first: "\<forall>i<length t. \<not> prefix marker (drop i (t @ marker))"
    using assms(1) by (simp add: text_ok_def list_all_iff)
  have skip: "\<forall>i<length t. rx n ?ps (drop i (t @ marker @ seg)) st = None"
  proof (intro allI impI)
    fix i assume i: "i < length t"
    then have "drop i (t @ marker @ seg) = drop i (t @ marker) @ seg" by simp
    moreover have "length marker \<le> length (drop i (t @ marker))" using i by simp
    ultimately have "prefix marker (drop i (t @ marker @ seg)) = prefix marker (drop i (t @ marker))"
      by (simp only: prefix_short)
    with first i have "\<not> prefix marker (drop i (t @ marker @ seg))" by blast
    then show "rx n ?ps (drop i (t @ marker @ seg)) st = None"
      by (simp only: lits_prefix if_False)
  qed
  have "rx n ?ps (marker @ seg) st =
        rx n (Star (In [Space]) # Open 15 # Star Any # Close 15 # [Eol]) seg st"
    by (simp only: lits_prefix) simp
  also have "\<dots> = Some ([], captured 15 (dropWhile is_space seg) (dropWhile is_space seg) st)"
    by (rule tail_end[OF assms(2)])
  finally have "rx n (LazyStar Any # ?ps) (marker @ seg) st =
        Some ([], captured 15 (dropWhile is_space seg) (dropWhile is_space seg) st)"
    by (rule lazy_here)
  moreover have "rx n (LazyStar Any # ?ps) (t @ marker @ seg) st =
        rx n (LazyStar Any # ?ps) (marker @ seg) st"
    using any skip by (rule lazy_skip)
  ultimately show ?thesis
    by (simp only: items marker_def)
qed

lemma parse_grammar_line:
  assumes "header_ok h" and "text_ok (i_text h)" and "nl \<notin> set seg"
  shows "parse_cnu_line (grammar_line h seg) =
     (if i_ws_bad h = [] \<or> i_ws_percent h = [] then None
      else Some (record_of h (map ch_data (findall channel_regex (dropWhile is_space seg)))))"
proof -
  let ?l = "grammar_line h seg"
  let ?r = "i_text h @ ''per channel'' @ seg"
  have l: "?l = header_text h @ ?r"
    by (simp add: grammar_line_def)
  have start: "rx (length ?l) line_regex ?l init = rx (length ?l) (head_items @ tail_items) ?l init"
    by (simp add: line_regex_split)
  show ?thesis
  proof (cases "i_ws_bad h = [] \<or> i_ws_percent h = []")
    case True
    have "rx (length ?l) (head_items @ tail_items) (header_text h @ ?r) init = None"
      using assms(1) True by (rule head_reject)
    with start l have "rx_match line_regex ?l = None"
      by (simp add: rx_match_def)
    with True show ?thesis
      by (simp add: parse_cnu_line_def)
  next
    case False
    then have ne: "i_ws_bad h \<noteq> []" "i_ws_percent h \<noteq> []" by simp_all
    from head_match[OF assms(1) ne, of "length ?l" tail_items ?r init]
    obtain st' where
      st': "rx (length ?l) (head_items @ tail_items) (header_text h @ ?r) init =
            rx (length ?l) tail_items ?r st'"
      and g: "groups st' = (groups init)
                (1 \<mapsto> i_ident h, 2 \<mapsto> i_timestamp h, 3 \<mapsto> i_level h, 4 \<mapsto> i_module h,
                 5 \<mapsto> i_function h, 6 \<mapsto> i_line h, 7 \<mapsto> i_port h, 8 \<mapsto> i_dev h,
                 9 \<mapsto> i_cnu_id h, 10 \<mapsto> i_mac h, 11 \<mapsto> i_source_type h,
                 12 \<mapsto> i_good h, 13 \<mapsto> i_bad h, 14 \<mapsto> i_percent h)"
      by blast
    let ?c = "dropWhile is_space seg"
    have "rx (length ?l) tail_items ?r st' = Some ([], captured 15 ?c ?c st')"
      using assms(2,3) by (rule tail_match)
    with st' start l have m: "rx_match line_regex ?l = Some (captured 15 ?c ?c st')"
      by (simp add: rx_match_def)
    have "parse_cnu_line ?l =
        Some (record_of h (map ch_data (findall channel_regex ?c)))"
      unfolding parse_cnu_line_def m
      by (simp add: group_def captured_def g record_of_def)
    with False show ?thesis by simp
  qed
qed

section \<open>The channel pattern and findall\<close>

lemma grp_signed_minus:
  assumes "rejects (In [Digit]) ps" and "run (In [Digit]) d r" and "d \<noteq> []"
  shows "rx n (Open k # Opt (Lit CHR ''-'') # Plus (In [Digit]) # Close k # ps)
           (CHR ''-'' # d @ r) st =
         rx n ps r (captured k (CHR ''-'' # d @ r) (CHR ''-'' # d) st)"
proof -
  have rej: "rejects (In [Digit]) (Close k # ps)"
    using assms(1) by (rule rejects_Close)
  have plus: "rx n (Plus (In [Digit]) # Close k # ps) (d @ r) st' =
        rx n ps r (st'\<lparr>groups := (groups st')(k \<mapsto>
            take (length (opened st' k) - length r) (opened st' k))\<rparr>)" for st'
    using assms(3) by (simp add: plus_run[OF rej assms(2)])
  have none: "rx n (Plus (In [Digit]) # Close k # ps) (CHR ''-'' # d @ r) st' = None" for st'
    by (simp add: is_digit_def code_def)
  show ?thesis
    by (simp del: rx.simps(8,9) add: plus none captured_def split: option.splits)
qed

lemma grp_signed_plain:
  assumes "rejects (In [Digit]) ps" and "run (In [Digit]) d r" and "d \<noteq> []"
  shows "rx n (Open k # Opt (Lit CHR ''-'') # Plus (In [Digit]) # Close k # ps) (d @ r) st =
         rx n ps r (captured k (d @ r) d st)"
proof -
  have rej: "rejects (In [Digit]) (Close k # ps)"
    using assms(1) by (rule rejects_Close)
  have plus: "rx n (Plus (In [Digit]) # Close k # ps) (d @ r) st' =
        rx n ps r (st'\<lparr>groups := (groups st')(k \<mapsto>
            take (length (opened st' k) - length r) (opened st' k))\<rparr>)" for st'
    using assms(3) by (simp add: plus_run[OF rej assms(2)])
  from assms(3) obtain c d' where d: "d = c # d'" by (cases d) auto
  with assms(2) have "is_digit c" by (simp add: run_def)
  then have "c \<noteq> CHR ''-''" by (auto simp: is_digit_def code_def)
  then have "rx n (Opt (Lit CHR ''-'') # Plus (In [Digit]) # Close k # ps) (d @ r) st' =
        rx n (Plus (In [Digit]) # Close k # ps) (d @ r) st'" for st'
    by (simp add: d)
  then show ?thesis
    by (simp del: rx.simps(4,5,8,9) add: plus captured_def)
qed

lemma signed_cases:
  assumes "signed p"
  obtains (minus) d where "p = CHR ''-'' # d" "d \<noteq> []" "\<forall>c\<in>set d. is_digit c"
  | (plain) "p \<noteq> []" "\<forall>c\<in>set p. is_digit c"
  using assms by (cases p) (auto simp: digits_def list_all_iff split: if_splits)

lemma chan_ok_D:
  assumes "chan_ok c"
  shows "c_band c \<noteq> []" "\<forall>x\<in>set (c_band c). is_digit x"
    "\<forall>x\<in>set (c_ws c). is_space x"
    "c_rx_bits c \<noteq> []" "\<forall>x\<in>set (c_rx_bits c). is_digit x"
    "\<forall>x\<in>set (c_rx_bits c). \<not> is_space x"
    "c_snr c \<noteq> []" "\<forall>x\<in>set (c_snr c). is_digit x"
    "c_rx_phy c \<noteq> []" "\<forall>x\<in>set (c_rx_phy c). is_digit x"
    "c_tx_bits c \<noteq> []" "\<forall>x\<in>set (c_tx_bits c). is_digit x"
    "c_tx_phy c \<noteq> []" "\<forall>x\<in>set (c_tx_phy c). is_digit x"
  using assms
  by (auto simp: chan_ok_def digits_def spaces_def list_all_iff digit_not_space)

lemmas chan_simps = rx.simps(1,2,3) channel_regex_def chan_text_def grp_def lits_def
  grp_run star_run rej run_Cons run_app run_app_Cons chr_facts grp_signed_minus grp_signed_plain

lemma chr_facts2: "\<not> is_digit CHR ''-''" "\<not> is_space CHR ''-''"
  by (simp_all add: is_digit_def is_space_def code_def)

lemma chan_match:
  assumes "chan_ok c"
  shows "\<exists>st'. rx n channel_regex (chan_text c @ r) st = Some (r, st')
           \<and> groups st' = (groups st)
               (1 \<mapsto> c_band c, 2 \<mapsto> c_rx_bits c, 3 \<mapsto> c_power c, 4 \<mapsto> c_snr c,
                5 \<mapsto> c_rx_phy c, 6 \<mapsto> c_tx_bits c, 7 \<mapsto> c_tx_phy c)"
proof -
  from assms have "signed (c_power c)" by (simp add: chan_ok_def)
  then show ?thesis
  proof (cases rule: signed_cases)
    case (minus d)
    show ?thesis
      apply (rule exI)
      apply (rule conjI)
      using chan_ok_D[OF assms] minus
       apply (simp del: rx.simps add: chan_simps chr_facts2)
      apply (simp add: captured_def minus)
      done
  next
    case plain
    show ?thesis
      apply (rule exI)
      apply (rule conjI)
      using chan_ok_D[OF assms] plain
       apply (simp del: rx.simps add: chan_simps chr_facts2)
      apply (simp add: captured_def)
      done
  qed
qed

lemma channel_regex_first: "c \<noteq> CHR ''<'' \<Longrightarrow> rx n channel_regex (c # t) st = None"
  by (simp add: channel_regex_def lits_def)

lemma channel_regex_Nil: "rx n channel_regex [] st = None"
  by (simp add: channel_regex_def lits_def)

lemma scan_skip:
  "\<forall>c\<in>set sep. c \<noteq> CHR ''<'' \<Longrightarrow> scan n channel_regex (sep @ s) = scan n channel_regex s"
proof (induction sep)
  case Nil
  then show ?case by simp
next
  case (Cons c sep)
  then have "rx n channel_regex (c # sep @ s) init = None"
    by (simp add: channel_regex_first)
  then have "scan n channel_regex ((c # sep) @ s) = scan n channel_regex (sep @ s)"
    by (subst scan.simps) simp
  with Cons show ?case by simp
qed

lemma scan_Nil: "scan n channel_regex [] = []"
  by (subst scan.simps) (simp add: channel_regex_Nil)

lemma chan_text_nonempty: "chan_text c \<noteq> []"
  by (simp add: chan_text_def)

lemma scan_chan:
  assumes "chan_ok c"
  shows "scan n channel_regex (chan_text c @ s) = tuple_in c # scan n channel_regex s"
proof -
  from chan_match[OF assms, of n s init] obtain st' where
    m: "rx n channel_regex (chan_text c @ s) init = Some (s, st')"
    and g: "groups st' = (groups init)
               (1 \<mapsto> c_band c, 2 \<mapsto> c_rx_bits c, 3 \<mapsto> c_power c, 4 \<mapsto> c_snr c,
                5 \<mapsto> c_rx_phy c, 6 \<mapsto> c_tx_bits c, 7 \<mapsto> c_tx_phy c)"
    by blast
  have t: "tuple_of st' = tuple_in c"
    by (simp add: tuple_of_def gtext_def g tuple_in_def)
  have "length s < length (chan_text c @ s)"
    using chan_text_nonempty[of c] by simp
  with m t show ?thesis
    by (subst scan.simps) simp
qed

lemma scan_segment:
  assumes "\<forall>c\<in>set sep. c \<noteq> CHR ''<''" and "list_all chan_ok cs"
  shows "scan n channel_regex (segment sep cs) = map tuple_in cs"
proof -
  have "scan n channel_regex (concat (map (\<lambda>c. chan_text c @ c_after c) cs)) = map tuple_in cs"
    using assms(2)
  proof (induction cs)
    case Nil
    then show ?case by (simp add: scan_Nil)
  next
    case (Cons c cs)
    then have ok: "chan_ok c" and rest: "list_all chan_ok cs" by simp_all
    from ok have "\<forall>x\<in>set (c_after c). x \<noteq> CHR ''<''"
      by (simp add: chan_ok_def between_def list_all_iff)
    then have "scan n channel_regex (c_after c @ concat (map (\<lambda>c. chan_text c @ c_after c) cs)) =
          scan n channel_regex (concat (map (\<lambda>c. chan_text c @ c_after c) cs))"
      by (rule scan_skip)
    with Cons.IH[OF rest] scan_chan[OF ok] show ?case by simp
  qed
  with scan_skip[OF assms(1)] show ?thesis
    by (simp add: segment_def)
qed

lemma scan_dropWhile_space:
  "scan n channel_regex (dropWhile is_space s) = scan n channel_regex s"
proof -
  have "\<forall>c\<in>set (takeWhile is_space s). c \<noteq> CHR ''<''"
    by (auto dest!: set_takeWhileD simp: is_space_def code_def)
  then have "scan n channel_regex (takeWhile is_space s @ dropWhile is_space s) =
        scan n channel_regex (dropWhile is_space s)"
    by (rule scan_skip)
  then show ?thesis by simp
qed

lemma findall_segment:
  assumes "\<forall>c\<in>set sep. c \<noteq> CHR ''<''" and "list_all chan_ok cs"
  shows "findall channel_regex (dropWhile is_space (segment sep cs)) = map tuple_in cs"
  by (simp add: findall_def scan_dropWhile_space scan_segment[OF assms])

lemma ch_data_tuple: "ch_data (tuple_in c) = channel_of c"
  by (simp add: tuple_in_def channel_of_def)

lemma digits_no_nl: "digits s \<Longrightarrow> nl \<notin> set s"
  by (auto simp: digits_def list_all_iff is_digit_def nl_def code_def)

lemma signed_no_nl: "signed s \<Longrightarrow> nl \<notin> set s"
  by (cases s) (auto simp: digits_def list_all_iff is_digit_def nl_def code_def split: if_splits)

lemma nl_lits:
  "nl \<noteq> CHR ''<''" "nl \<noteq> CHR '':''" "nl \<noteq> CHR ''/''" "nl \<noteq> CHR '',''" "nl \<noteq> CHR ''>''"
  by (simp_all add: nl_def)

lemma chan_text_no_nl:
  assumes "chan_ok c"
  shows "nl \<notin> set (chan_text c @ c_after c)"
proof -
  from assms have
    "nl \<notin> set (c_band c)" "nl \<notin> set (c_ws c)" "nl \<notin> set (c_rx_bits c)"
    "nl \<notin> set (c_power c)" "nl \<notin> set (c_snr c)" "nl \<notin> set (c_rx_phy c)"
    "nl \<notin> set (c_tx_bits c)" "nl \<notin> set (c_tx_phy c)"
    by (simp_all add: chan_ok_def digits_no_nl signed_no_nl)
  moreover from assms have "nl \<notin> set (c_after c)"
    by (auto simp: chan_ok_def between_def list_all_iff)
  ultimately show ?thesis
    by (simp add: chan_text_def nl_lits)
qed

lemma segment_no_nl:
  assumes "between sep" and "list_all chan_ok cs"
  shows "nl \<notin> set (segment sep cs)"
proof -
  have "nl \<notin> set (concat (map (\<lambda>c. chan_text c @ c_after c) cs))"
    using assms(2)
  proof (induction cs)
    case Nil
    then show ?case by simp
  next
    case (Cons c cs)
    then have "chan_ok c" "list_all chan_ok cs" by simp_all
    with Cons.IH chan_text_no_nl[of c] show ?case by simp
  qed
  with assms(1) show ?thesis
    by (auto simp: segment_def between_def list_all_iff)
qed

lemma parse_grammar_channels:
  assumes "header_ok h" and "i_ws_bad h \<noteq> []" and "i_ws_percent h \<noteq> []"
    and "text_ok (i_text h)" and "between sep" and "list_all chan_ok cs"
  shows "parse_cnu_line (grammar_line h (segment sep cs)) =
     Some (record_of h (map channel_of cs))"
proof -
  from assms(5) have sep: "\<forall>c\<in>set sep. c \<noteq> CHR ''<''"
    by (simp add: between_def list_all_iff)
  have "map ch_data (findall channel_regex (dropWhile is_space (segment sep cs))) =
        map channel_of cs"
    by (simp add: findall_segment[OF sep assms(6)] ch_data_tuple)
  with parse_grammar_line[OF assms(1,4) segment_no_nl[OF assms(5,6)]] assms(2,3)
  show ?thesis by simp
qed

section \<open>The writes of a run\<close>

lemma main_loop_eq:
  "main_loop lines (out, nm) =
     (out @ concat (map render (matched lines)), nm @ rejected lines)"
proof (induction lines arbitrary: out nm)
  case Nil
  then show ?case by (simp add: matched_def rejected_def map_filter_simps)
next
  case (Cons raw rest)
  show ?case
  proof (cases "parse_cnu_line (rstrip_nl raw)")
    case None
    then show ?thesis
      by (simp add: Cons matched_def rejected_def map_filter_simps)
  next
    case (Some p)
    then show ?thesis
      by (simp add: Cons matched_def rejected_def map_filter_simps)
  qed
qed

lemma main_eq:
  "main debug lines =
     concat (map render (matched lines))
     @ (if debug \<and> rejected lines \<noteq> []
        then debug_header # map no_match_line (rejected lines) else [])"
  by (simp add: main_def main_loop_eq)

lemma matched_append: "matched (xs @ ys) = matched xs @ matched ys"
  by (simp add: matched_def List.map_filter_def)

lemma render_chunk_head:
  "w \<in> set (render p) \<Longrightarrow> w \<noteq> [] \<and> hd w \<in> set ''-TLMFCSR ''"
  by (auto simp: render_def divider_def channel_line_def)

lemma divider_51: "divider = replicate 51 CHR ''-'' @ [nl]"
  by (simp add: divider_def nl_def eval_nat_numeral)

lemma render_ends: "hd (render p) = divider" "last (render p) = divider"
  by (simp_all add: render_def)

lemma source_line: "render p ! 9 = ''Source:     '' @ source_str p @ ''\<newline>''"
  by (simp add: render_def eval_nat_numeral)

section \<open>Groups of a match, and the removed colon\<close>

lemma rx_no_Bol: "Bol \<notin> set ps \<Longrightarrow> rx n ps s st = rx n' ps s st"
proof (induction n ps s st rule: rx.induct)
  case (7 n a ps c t st)
  then show ?case by (simp split: option.splits)
next
  case (5 n a ps c t st)
  then show ?case by (simp split: option.splits)
next
  case (11 n a ps c t st)
  then show ?case by (simp split: option.splits)
qed simp_all

lemma channel_regex_no_Bol: "Bol \<notin> set channel_regex"
  by (simp add: channel_regex_def grp_def lits_def)

lemma scan_any_length: "scan n channel_regex s = scan n' channel_regex s"
proof (induction s rule: length_induct)
  case (1 s)
  have rx: "rx n channel_regex s init = rx n' channel_regex s init"
    by (rule rx_no_Bol[OF channel_regex_no_Bol])
  have tl: "scan n channel_regex t = scan n' channel_regex t" if "s = c # t" for c t
    using 1 that by simp
  show ?case
    by (subst scan.simps, subst (2) scan.simps)
      (auto simp: rx 1 tl split: option.splits list.splits)
qed

lemma findall_dropWhile_space:
  "findall channel_regex (dropWhile is_space s) = findall channel_regex s"
  unfolding findall_def
  using scan_dropWhile_space[of "length s" s] scan_any_length by metis

lemma rx_groups:
  "rx n ps s st = Some (r, st') \<Longrightarrow>
   (groups st k \<noteq> None \<longrightarrow> groups st' k \<noteq> None) \<and> (Close k \<in> set ps \<longrightarrow> groups st' k \<noteq> None)"
proof (induction n ps s st rule: rx.induct)
  case (5 n a ps c t st)
  then show ?case by (auto split: if_splits option.splits)
next
  case (7 n a ps c t st)
  then show ?case by (auto split: if_splits option.splits)
next
  case (11 n a ps c t st)
  then show ?case by (auto split: if_splits option.splits)
qed (auto split: if_splits)

lemma line_regex_closes:
  "Close 1 \<in> set line_regex" "Close 2 \<in> set line_regex" "Close 3 \<in> set line_regex"
  "Close 4 \<in> set line_regex" "Close 5 \<in> set line_regex" "Close 6 \<in> set line_regex"
  "Close 7 \<in> set line_regex" "Close 8 \<in> set line_regex" "Close 9 \<in> set line_regex"
  "Close 10 \<in> set line_regex" "Close 11 \<in> set line_regex" "Close 12 \<in> set line_regex"
  "Close 13 \<in> set line_regex" "Close 14 \<in> set line_regex" "Close 15 \<in> set line_regex"
  by (simp_all add: line_regex_def grp_def)

lemma match_groups_set:
  assumes "rx_match line_regex l = Some m"
  shows "\<exists>g1 g2 g3 g4 g5 g6 g7 g8 g9 g10 g11 g12 g13 g14 g15.
     group m 1 = Some g1 \<and> group m 2 = Some g2 \<and> group m 3 = Some g3 \<and> group m 4 = Some g4
     \<and> group m 5 = Some g5 \<and> group m 6 = Some g6 \<and> group m 7 = Some g7 \<and> group m 8 = Some g8
     \<and> group m 9 = Some g9 \<and> group m 10 = Some g10 \<and> group m 11 = Some g11
     \<and> group m 12 = Some g12 \<and> group m 13 = Some g13 \<and> group m 14 = Some g14
     \<and> group m 15 = Some g15"
proof -
  from assms obtain r where "rx (length l) line_regex l init = Some (r, m)"
    by (auto simp: rx_match_def)
  then have "Close k \<in> set line_regex \<Longrightarrow> groups m k \<noteq> None" for k
    using rx_groups by blast
  with line_regex_closes show ?thesis
    by (simp add: group_def)
qed

lemma parse_None_iff: "parse_cnu_line l = None \<longleftrightarrow> rx_match line_regex l = None"
proof (cases "rx_match line_regex l")
  case None
  then show ?thesis by (simp add: parse_cnu_line_def)
next
  case (Some m)
  from match_groups_set[OF Some] obtain g1 g2 g3 g4 g5 g6 g7 g8 g9 g10 g11 g12 g13 g14 g15 where
    "group m 1 = Some g1" "group m 2 = Some g2" "group m 3 = Some g3" "group m 4 = Some g4"
    "group m 5 = Some g5" "group m 6 = Some g6" "group m 7 = Some g7" "group m 8 = Some g8"
    "group m 9 = Some g9" "group m 10 = Some g10" "group m 11 = Some g11"
    "group m 12 = Some g12" "group m 13 = Some g13" "group m 14 = Some g14"
    "group m 15 = Some g15"
    by blast
  with Some show ?thesis by (simp add: parse_cnu_line_def)
qed

lemma head_items_split:
  "head_items = head_pre @ Open 4 # Plus (In [Word]) # Close 4 # One (Lit CHR '':'') # head_post"
  by (simp add: head_items_def head_pre_def head_post_def grp_def lits_def)

lemma grp_none:
  "\<not> amatch a c \<Longrightarrow> rx n (Open k # Plus a # Close k # ps) (c # r) st = None"
  by simp

lemma pre_match:
  assumes "header_ok h"
  shows "\<exists>st'. rx n (head_pre @ ps)
           (i_lead h @ i_ident h @ '':'' @ i_timestamp h @ '':'' @ i_level h @ '':'' @ r) st =
         rx n ps r st'"
  apply (rule exI)
  using header_ok_D[OF assms]
  apply (simp del: rx.simps add: rx.simps(1,2,3) head_pre_def grp_def lits_def
      grp_run star_run rej run_Cons run_app run_app_Cons chr_facts)
  done

lemma post_reject:
  assumes "header_ok h"
  shows "rx n (head_post @ ps) (i_ws_line h @ i_line h @ '':'' @ i_ws_port h @ ''<'' @ r) st = None"
proof -
  have "\<forall>c\<in>set (i_line h). c \<noteq> CHR '':''"
    using header_ok_D(16)[OF assms] chr_facts(1) by blast
  moreover have "\<not> is_digit CHR ''<''"
    by (simp add: is_digit_def code_def)
  ultimately show ?thesis
    using header_ok_D[OF assms]
    by (simp del: rx.simps add: rx.simps(1,2,3,7) head_post_def grp_def lits_def
      grp_run star_run rej run_Cons run_app run_app_Cons chr_facts grp_none)
qed

lemma remove_char_at: "remove_char (length xs) (xs @ c # ys) = xs @ ys"
  by (simp add: remove_char_def)

lemma module_colon_removed:
  assumes "header_ok h"
  shows "parse_cnu_line (remove_char (module_colon h) (grammar_line h seg)) = None"
proof -
  let ?pre = "i_lead h @ i_ident h @ '':'' @ i_timestamp h @ '':'' @ i_level h @ '':''"
  let ?X = "i_ws_function h @ i_function h @ i_ws_colon h"
  let ?R = "i_port h @ '':'' @ i_dev h @ ''>,<'' @ i_cnu_id h @ '','' @ i_mac h
     @ ''>,<'' @ i_source_type h @ ''>'' @ i_ws_rx h
     @ ''<Rx Good/Bad,Percent'' @ i_ws_good h @ i_good h @ ''/'' @ i_ws_bad h
     @ i_bad h @ '','' @ i_ws_percent h @ i_percent h @ ''%>'' @ i_text h @ ''per channel'' @ seg"
  let ?R' = "i_ws_line h @ i_line h @ '':'' @ i_ws_port h @ ''<'' @ ?R"
  let ?S = "i_module h @ ?X @ CHR '':'' # ?R'"
  let ?l = "remove_char (module_colon h) (grammar_line h seg)"
  let ?mod = "Open 4 # Plus (In [Word]) # Close 4 # One (Lit CHR '':'') # head_post @ tail_items"
  define n0 where "n0 = length ?l"
  have g: "grammar_line h seg = (?pre @ i_module h) @ CHR '':'' # ?X @ CHR '':'' # ?R'"
    by (simp add: grammar_line_def header_text_def)
  have k: "module_colon h = length (?pre @ i_module h)"
    by (simp add: module_colon_def)
  have "?l = (?pre @ i_module h) @ ?X @ CHR '':'' # ?R'"
    by (simp only: g k remove_char_at)
  then have l: "?l = ?pre @ ?S"
    by simp
  have X: "\<forall>c\<in>set ?X. c \<noteq> CHR '':''"
    using header_ok_D(10,12,13)[OF assms] chr_facts(3) by auto
  have rej: "rejects (In [Word]) (One (Lit CHR '':'') # head_post @ tail_items)"
    by (simp add: rej)
  have tail: "rx n (One (Lit CHR '':'') # head_post @ tail_items)
        (dropWhile (amatch (In [Word])) ?S) st = None" for n st
  proof -
    have w: "amatch (In [Word]) = is_word" by (rule ext) simp
    have "dropWhile is_word ?S = dropWhile is_word (?X @ CHR '':'' # ?R')"
      using header_ok_D(9)[OF assms] by (simp add: dropWhile_append2)
    also have "\<dots> = dropWhile is_word ?X @ CHR '':'' # ?R'"
      by (rule dropWhile_append3) (rule chr_facts(2))
    finally have D: "dropWhile (amatch (In [Word])) ?S = dropWhile is_word ?X @ CHR '':'' # ?R'"
      by (simp only: w)
    show ?thesis
    proof (cases "dropWhile is_word ?X")
      case Nil
      have "rx n (One (Lit CHR '':'') # head_post @ tail_items) (CHR '':'' # ?R') st =
            rx n (head_post @ tail_items) ?R' st"
        by (simp only: rx.simps amatch.simps simp_thms if_True)
      also have "\<dots> = None"
        by (rule post_reject[OF assms])
      finally show ?thesis
        by (simp only: D Nil append_Nil)
    next
      case (Cons c t)
      then have "c \<in> set ?X"
        by (metis list.set_intros(1) set_dropWhileD)
      with X have "c \<noteq> CHR '':''" by blast
      then have "rx n (One (Lit CHR '':'') # head_post @ tail_items)
            ((c # t) @ CHR '':'' # ?R') st = None"
        by (simp only: append_Cons rx.simps amatch.simps simp_thms if_False)
      then show ?thesis
        by (simp only: D Cons)
    qed
  qed
  have a: "rx n ?mod ?S st = None" for n st
    by (simp only: grp_plus_det[OF rej] tail if_cancel)
  obtain st' where
    b: "rx n0 (head_pre @ ?mod) (?pre @ ?S) init = rx n0 ?mod ?S st'"
    using pre_match[OF assms, of n0 ?mod ?S init] by auto
  have hi: "head_items @ tail_items = head_pre @ ?mod"
    by (simp add: head_items_split)
  have "rx n0 (head_items @ tail_items) ?l init = rx n0 (head_pre @ ?mod) (?pre @ ?S) init"
    by (simp only: l hi)
  also have "\<dots> = None"
    by (simp only: b a)
  finally have "rx (length ?l) line_regex ?l init = None"
    by (simp add: line_regex_split n0_def)
  then have "rx_match line_regex ?l = None"
    by (simp add: rx_match_def)
  then show ?thesis
    by (simp add: parse_cnu_line_def)
qed

section \<open>A line with one delimiter character removed\<close>

lemma seg_grp:
  assumes "\<not> amatch a CHR '':''" and "CHR '':'' \<notin> set Y"
    and "\<And>st'. rx n ps r st' = None"
  shows "rx n (Open k # Plus a # Close k # One (Lit CHR '':'') # ps) (Y @ CHR '':'' # r) st = None"
proof -
  have rej: "rejects a (One (Lit CHR '':'') # ps)"
    using assms(1) by (simp add: rejects_def)
  have D: "dropWhile (amatch a) (Y @ CHR '':'' # r) = dropWhile (amatch a) Y @ CHR '':'' # r"
    by (rule dropWhile_append3) (rule assms(1))
  have "rx n (One (Lit CHR '':'') # ps) (dropWhile (amatch a) Y @ CHR '':'' # r) st' = None" for st'
  proof (cases "dropWhile (amatch a) Y")
    case Nil
    show ?thesis
      by (simp only: Nil append_Nil rx.simps amatch.simps simp_thms if_True assms(3))
  next
    case (Cons c t)
    then have "c \<in> set Y" by (metis list.set_intros(1) set_dropWhileD)
    with assms(2) have "c \<noteq> CHR '':''" by blast
    with Cons show ?thesis by simp
  qed
  then show ?thesis
    by (simp only: grp_plus_det[OF rej] D if_cancel)
qed

lemma seg_star_grp:
  assumes "\<not> amatch a CHR '':''" and "disj (In [Space]) a" and "CHR '':'' \<notin> set Y"
    and "\<And>st'. rx n ps r st' = None"
  shows "rx n (Star (In [Space]) # Open k # Plus a # Close k # One (Lit CHR '':'') # ps)
           (Y @ CHR '':'' # r) st = None"
proof -
  have rej: "rejects (In [Space]) (Open k # Plus a # Close k # One (Lit CHR '':'') # ps)"
    using assms(2) by (simp add: rejects_Open rejects_Plus)
  have ns: "\<not> amatch (In [Space]) CHR '':''"
    by (simp add: chr_facts)
  have D: "dropWhile (amatch (In [Space])) (Y @ CHR '':'' # r) =
        dropWhile (amatch (In [Space])) Y @ CHR '':'' # r"
    by (rule dropWhile_append3) (rule ns)
  have "CHR '':'' \<notin> set (dropWhile (amatch (In [Space])) Y)"
    using assms(3) set_dropWhileD by fastforce
  then have "rx n (Open k # Plus a # Close k # One (Lit CHR '':'') # ps)
      (dropWhile (amatch (In [Space])) Y @ CHR '':'' # r) st = None"
    using assms(1,4) by (intro seg_grp)
  then show ?thesis
    by (simp only: star_det[OF rej] D)
qed

lemma seg_star_grp_star:
  assumes "\<not> amatch a CHR '':''" and "disj (In [Space]) a" and "disj a (In [Space])"
    and "CHR '':'' \<notin> set Y" and "\<And>st'. rx n ps r st' = None"
  shows "rx n (Star (In [Space]) # Open k # Plus a # Close k # Star (In [Space])
              # One (Lit CHR '':'') # ps) (Y @ CHR '':'' # r) st = None"
proof -
  let ?q = "Star (In [Space]) # One (Lit CHR '':'') # ps"
  have ns: "\<not> amatch (In [Space]) CHR '':''"
    by (simp add: chr_facts)
  have rej1: "rejects (In [Space]) (Open k # Plus a # Close k # ?q)"
    using assms(2) by (simp add: rejects_Open rejects_Plus)
  have "disj a (Lit CHR '':'')"
    using assms(1) by (auto simp: disj_def)
  then have rej2: "rejects a ?q"
    by (intro rejects_Star rejects_One assms(3))
  have rej3: "rejects (In [Space]) (One (Lit CHR '':'') # ps)"
    by (simp add: rejects_def chr_facts)
  let ?Y1 = "dropWhile (amatch (In [Space])) Y"
  let ?Y2 = "dropWhile (amatch a) ?Y1"
  let ?Y3 = "dropWhile (amatch (In [Space])) ?Y2"
  have D1: "dropWhile (amatch (In [Space])) (Y @ CHR '':'' # r) = ?Y1 @ CHR '':'' # r"
    by (rule dropWhile_append3) (rule ns)
  have D2: "dropWhile (amatch a) (?Y1 @ CHR '':'' # r) = ?Y2 @ CHR '':'' # r"
    by (rule dropWhile_append3) (rule assms(1))
  have D3: "dropWhile (amatch (In [Space])) (?Y2 @ CHR '':'' # r) = ?Y3 @ CHR '':'' # r"
    by (rule dropWhile_append3) (rule ns)
  have sub: "set ?Y3 \<subseteq> set Y"
    by (meson set_dropWhileD subsetI)
  have "rx n (One (Lit CHR '':'') # ps) (?Y3 @ CHR '':'' # r) st' = None" for st'
  proof (cases ?Y3)
    case Nil
    show ?thesis
      by (simp only: Nil append_Nil rx.simps amatch.simps simp_thms if_True assms(5))
  next
    case (Cons c t)
    then have "c \<in> set Y" using sub by (metis list.set_intros(1) subsetD)
    with assms(4) have "c \<noteq> CHR '':''" by blast
    with Cons show ?thesis by simp
  qed
  then show ?thesis
    by (simp only: star_det[OF rej1] D1 grp_plus_det[OF rej2] D2 star_det[OF rej3] D3 if_cancel)
qed

lemma head_items_colons: "head_items = head_colons @ head_brackets"
  by (simp add: head_items_def head_colons_def head_brackets_def)

lemmas pre_defs = pre_ident_def pre_timestamp_def pre_level_def pre_module_def pre_function_def
  pre_line_def pre_port_def pre_port_colon_def pre_dev_def pre_cnu_id_def pre_mac_def
  pre_source_type_def pre_rx_def pre_good_def pre_bad_def pre_percent_def

lemma header_text_pre: "header_text h = pre_percent h @ ''%>''"
  by (simp add: header_text_def pre_defs)

lemma colons_match:
  assumes "header_ok h"
  shows "\<exists>st'. rx n (head_colons @ ps) (pre_line h @ CHR '':'' # r) st = rx n ps r st'"
  apply (rule exI)
  using header_ok_D[OF assms]
  apply (simp del: rx.simps add: rx.simps(1,2,3) head_colons_def pre_defs grp_def lits_def
      grp_run star_run rej run_Cons run_app run_app_Cons chr_facts)
  done

lemma one_none_app:
  "xs \<noteq> [] \<Longrightarrow> \<forall>c\<in>set xs. c \<noteq> d \<Longrightarrow> rx n (One (Lit d) # ps) (xs @ r) st = None"
  by (cases xs) auto

lemma one_none_app_Cons:
  "\<forall>c\<in>set xs. c \<noteq> d \<Longrightarrow> c' \<noteq> d \<Longrightarrow> rx n (One (Lit d) # ps) (xs @ c' # r) st = None"
  by (cases xs) auto

lemma digit_facts:
  assumes "\<forall>c\<in>set s. is_digit c"
  shows "\<forall>c\<in>set s. c \<noteq> CHR ''<''" "\<forall>c\<in>set s. c \<noteq> CHR ''>''" "\<forall>c\<in>set s. c \<noteq> CHR '',''"
    "\<forall>c\<in>set s. c \<noteq> CHR ''/''" "\<forall>c\<in>set s. c \<noteq> CHR '':''" "\<forall>c\<in>set s. \<not> is_space c"
  using assms by (auto simp: is_digit_def is_space_def code_def)

lemma space_facts:
  assumes "\<forall>c\<in>set s. is_space c"
  shows "\<forall>c\<in>set s. c \<noteq> CHR ''<''" "\<forall>c\<in>set s. c \<noteq> CHR ''>''" "\<forall>c\<in>set s. c \<noteq> CHR '',''"
    "\<forall>c\<in>set s. c \<noteq> CHR ''/''" "\<forall>c\<in>set s. c \<noteq> CHR '':''" "\<forall>c\<in>set s. \<not> is_digit c"
    "\<forall>c\<in>set s. c \<noteq> CHR ''t''" "\<forall>c\<in>set s. c \<noteq> CHR ''%''"
  using assms by (auto simp: is_digit_def is_space_def code_def)

lemma more_chr_facts:
  "\<not> is_digit CHR ''<''" "\<not> is_space CHR ''>''" "\<not> is_space CHR '',''" "\<not> is_space CHR ''/''"
  "\<not> is_space CHR ''%''" "\<not> is_space CHR ''R''"
  by (simp_all add: is_digit_def is_space_def code_def)

lemmas br_simps = rx.simps(1,2,3) head_brackets_def grp_def lits_def
  grp_run star_run plus_run plus_none rej run_Cons run_app run_app_Cons chr_facts more_chr_facts
  one_none_app one_none_app_Cons grp_none

lemma parse_reject_head:
  assumes "rx (length l) (head_items @ tail_items) l init = None"
  shows "parse_cnu_line l = None"
proof -
  from assms have "rx (length l) line_regex l init = None"
    by (simp add: line_regex_split)
  then show ?thesis
    by (simp add: parse_cnu_line_def rx_match_def)
qed

lemma parse_reject_brackets:
  assumes "header_ok h" and "\<And>n st. rx n (head_brackets @ tail_items) B st = None"
  shows "parse_cnu_line (pre_line h @ CHR '':'' # B) = None"
proof -
  let ?l = "pre_line h @ CHR '':'' # B"
  obtain st' where "rx (length ?l) (head_colons @ head_brackets @ tail_items) ?l init =
      rx (length ?l) (head_brackets @ tail_items) B st'"
    using colons_match[OF assms(1), of "length ?l" "head_brackets @ tail_items" B init] by auto
  with assms(2) have "rx (length ?l) (head_items @ tail_items) ?l init = None"
    by (simp only: head_items_colons append_assoc)
  then show ?thesis by (rule parse_reject_head)
qed

lemma br_lt_port:
  assumes "header_ok h"
  shows "rx n (head_brackets @ ps)
     (i_ws_port h @ i_port h @ '':'' @ r) st = None"
  using header_ok_D[OF assms] digit_facts[OF header_ok_D(19)[OF assms]]
  by (simp del: rx.simps add: br_simps)

lemma br_comma_dev:
  assumes "header_ok h"
  shows "rx n (head_brackets @ ps)
     (i_ws_port h @ ''<'' @ i_port h @ '':'' @ i_dev h @ ''><'' @ r) st = None"
  using header_ok_D[OF assms]
  by (simp del: rx.simps add: br_simps)

lemma br_lt_cnu:
  assumes "header_ok h"
  shows "rx n (head_brackets @ ps)
     (i_ws_port h @ ''<'' @ i_port h @ '':'' @ i_dev h @ ''>,'' @ i_cnu_id h @ '','' @ r) st = None"
  using header_ok_D[OF assms] digit_facts[OF header_ok_D(23)[OF assms]]
  by (simp del: rx.simps add: br_simps)

lemma br_comma_mac:
  assumes "header_ok h"
  shows "rx n (head_brackets @ ps)
     (i_ws_port h @ ''<'' @ i_port h @ '':'' @ i_dev h @ ''>,<'' @ i_cnu_id h @ '','' @ i_mac h
      @ ''><'' @ r) st = None"
  using header_ok_D[OF assms]
  by (simp del: rx.simps add: br_simps)

lemma br_lt_source:
  assumes "header_ok h"
  shows "rx n (head_brackets @ ps)
     (i_ws_port h @ ''<'' @ i_port h @ '':'' @ i_dev h @ ''>,<'' @ i_cnu_id h @ '','' @ i_mac h
      @ ''>,'' @ i_source_type h @ ''>'' @ r) st = None"
  using header_ok_D[OF assms] digit_facts[OF header_ok_D(27)[OF assms]]
  by (simp del: rx.simps add: br_simps)

lemma br_gt_source:
  assumes "header_ok h"
  shows "rx n (head_brackets @ ps)
     (i_ws_port h @ ''<'' @ i_port h @ '':'' @ i_dev h @ ''>,<'' @ i_cnu_id h @ '','' @ i_mac h
      @ ''>,<'' @ i_source_type h @ i_ws_rx h @ ''<Rx Good/Bad,Percent'' @ r) st = None"
  using header_ok_D[OF assms] space_facts[OF header_ok_D(28)[OF assms]]
  by (simp del: rx.simps add: br_simps)

lemma br_slash:
  assumes "header_ok h" and "i_ws_bad h \<noteq> []"
  shows "rx n (head_brackets @ ps)
     (i_ws_port h @ ''<'' @ i_port h @ '':'' @ i_dev h @ ''>,<'' @ i_cnu_id h @ '','' @ i_mac h
      @ ''>,<'' @ i_source_type h @ ''>'' @ i_ws_rx h @ ''<Rx Good/Bad,Percent''
      @ i_ws_good h @ i_good h @ i_ws_bad h @ i_bad h @ '','' @ r) st = None"
  using header_ok_D[OF assms(1)] assms(2) space_facts[OF header_ok_D(33)[OF assms(1)]]
  by (simp del: rx.simps add: br_simps)

lemma br_comma_bad:
  assumes "header_ok h" and "i_ws_bad h \<noteq> []" and "i_ws_percent h \<noteq> []"
  shows "rx n (head_brackets @ ps)
     (i_ws_port h @ ''<'' @ i_port h @ '':'' @ i_dev h @ ''>,<'' @ i_cnu_id h @ '','' @ i_mac h
      @ ''>,<'' @ i_source_type h @ ''>'' @ i_ws_rx h @ ''<Rx Good/Bad,Percent''
      @ i_ws_good h @ i_good h @ ''/'' @ i_ws_bad h @ i_bad h @ i_ws_percent h @ i_percent h
      @ ''%>'' @ r) st = None"
  using header_ok_D[OF assms(1)] assms(2,3) space_facts[OF header_ok_D(36)[OF assms(1)]]
  by (simp del: rx.simps add: br_simps)

lemma br_percent:
  assumes "header_ok h" and "i_ws_bad h \<noteq> []" and "i_ws_percent h \<noteq> []"
  shows "rx n (head_brackets @ ps)
     (i_ws_port h @ ''<'' @ i_port h @ '':'' @ i_dev h @ ''>,<'' @ i_cnu_id h @ '','' @ i_mac h
      @ ''>,<'' @ i_source_type h @ ''>'' @ i_ws_rx h @ ''<Rx Good/Bad,Percent''
      @ i_ws_good h @ i_good h @ ''/'' @ i_ws_bad h @ i_bad h @ '','' @ i_ws_percent h
      @ i_percent h @ ''>'' @ r) st = None"
  using header_ok_D[OF assms(1)] assms(2,3)
  by (simp del: rx.simps add: br_simps)

lemma head_brackets_split:
  "head_brackets = head_br1 @ Star (In [Space]) # lits rx_tag @ head_br2"
  by (simp add: head_brackets_def head_br1_def head_br2_def rx_tag_def)

lemma br_gt_dev:
  assumes "header_ok h" and "Z \<noteq> []" and "\<forall>c\<in>set Z. c \<noteq> CHR ''>''"
  shows "rx n (head_brackets @ ps)
     (i_ws_port h @ ''<'' @ i_port h @ '':'' @ Z @ ''>,<'' @ i_source_type h @ ''>'' @ r) st = None"
  using header_ok_D[OF assms(1)] assms(2,3)
  by (simp del: rx.simps add: br_simps)

lemma br_gt_mac:
  assumes "header_ok h" and "Z \<noteq> []" and "\<forall>c\<in>set Z. c \<noteq> CHR ''>''"
  shows "rx n (head_brackets @ ps)
     (i_ws_port h @ ''<'' @ i_port h @ '':'' @ i_dev h @ ''>,<'' @ i_cnu_id h @ '','' @ Z
      @ ''>'' @ i_ws_rx h @ ''<'' @ r) st = None"
  using header_ok_D[OF assms(1)] assms(2,3) space_facts[OF header_ok_D(28)[OF assms(1)]]
  by (simp del: rx.simps add: br_simps)

lemma br1_match:
  assumes "header_ok h"
  shows "\<exists>st'. rx n (head_br1 @ ps)
     (i_ws_port h @ ''<'' @ i_port h @ '':'' @ i_dev h @ ''>,<'' @ i_cnu_id h @ '','' @ i_mac h
      @ ''>,<'' @ i_source_type h @ ''>'' @ r) st = rx n ps r st'"
  apply (rule exI)
  using header_ok_D[OF assms]
  apply (simp del: rx.simps add: rx.simps(1,2,3) head_br1_def grp_def lits_def
      grp_run star_run rej run_Cons run_app run_app_Cons chr_facts)
  done

lemma remove_char_Cons:
  "remove_char j (c # l) = (if j = 0 then l else c # remove_char (j - 1) l)"
  by (cases j) (simp_all add: remove_char_def)

lemma length_remove_char: "j < length l \<Longrightarrow> Suc (length (remove_char j l)) = length l"
  by (simp add: remove_char_def)

lemma rx_tag_removed_head:
  "j < 20 \<Longrightarrow> \<exists>c t. remove_char j rx_tag = c # t \<and> \<not> is_space c"
  by (cases j) (simp_all add: rx_tag_def remove_char_Cons is_space_def code_def)

lemma not_prefix_removed:
  assumes "Suc (length L') = length L" and "L \<noteq> []" and "w \<noteq> last L"
  shows "\<not> prefix L (L' @ w # r)"
proof
  assume "prefix L (L' @ w # r)"
  then have "take (length L) (L' @ w # r) = L"
    by (metis append_eq_conv_conj prefix_def)
  with assms(1) have "L' @ [w] = L"
    by (metis append.assoc append_Cons append_Nil append_eq_conv_conj length_append_singleton)
  then have "last L = w" by auto
  with assms(3) show False by simp
qed

lemma rx_tag_removed:
  assumes "\<forall>c\<in>set ws. is_space c" and "wg \<noteq> []" and "\<forall>c\<in>set wg. is_space c" and "j < 20"
  shows "rx n (Star (In [Space]) # lits rx_tag @ ps) (ws @ remove_char j rx_tag @ wg @ r) st = None"
proof -
  from rx_tag_removed_head[OF assms(4)] obtain c t where
    L': "remove_char j rx_tag = c # t" and c: "\<not> is_space c" by blast
  from assms(2) obtain w wg' where wg: "wg = w # wg'" by (cases wg) auto
  with assms(3) have w: "is_space w" by simp
  have rej: "rejects (In [Space]) (lits rx_tag @ ps)"
    by (simp add: rx_tag_def lits_def rej)
  have "dropWhile is_space (ws @ remove_char j rx_tag @ wg @ r) =
        dropWhile is_space (remove_char j rx_tag @ wg @ r)"
    using assms(1) by (simp add: dropWhile_append2)
  also have "\<dots> = remove_char j rx_tag @ wg @ r"
    using c by (simp add: L')
  finally have D: "dropWhile (amatch (In [Space])) (ws @ remove_char j rx_tag @ wg @ r) =
        remove_char j rx_tag @ w # wg' @ r"
    by (simp add: amatch_space wg)
  have "Suc (length (remove_char j rx_tag)) = length rx_tag"
    using assms(4) by (intro length_remove_char) (simp add: rx_tag_def)
  moreover have "rx_tag \<noteq> []" by (simp add: rx_tag_def)
  moreover have "w \<noteq> last rx_tag"
    using w by (auto simp: rx_tag_def is_space_def code_def)
  ultimately have "\<not> prefix rx_tag (remove_char j rx_tag @ w # wg' @ r)"
    by (rule not_prefix_removed)
  then show ?thesis
    by (simp only: star_det[OF rej] D lits_prefix if_False)
qed

lemma br_rx_tag:
  assumes "header_ok h" and "j < 20"
  shows "rx n (head_brackets @ ps)
     (i_ws_port h @ ''<'' @ i_port h @ '':'' @ i_dev h @ ''>,<'' @ i_cnu_id h @ '','' @ i_mac h
      @ ''>,<'' @ i_source_type h @ ''>'' @ i_ws_rx h @ remove_char j rx_tag @ i_ws_good h @ r) st
     = None"
proof -
  let ?q = "Star (In [Space]) # lits rx_tag @ head_br2 @ ps"
  let ?r = "i_ws_rx h @ remove_char j rx_tag @ i_ws_good h @ r"
  obtain st' where "rx n (head_br1 @ ?q)
     (i_ws_port h @ ''<'' @ i_port h @ '':'' @ i_dev h @ ''>,<'' @ i_cnu_id h @ '','' @ i_mac h
      @ ''>,<'' @ i_source_type h @ ''>'' @ ?r) st = rx n ?q ?r st'"
    using br1_match[OF assms(1), of n ?q ?r st] by auto
  moreover have "rx n ?q ?r st' = None"
    using header_ok_D(28,29,30)[OF assms(1)] assms(2) by (intro rx_tag_removed)
  ultimately show ?thesis
    by (simp only: head_brackets_split append_assoc append_Cons)
qed

lemmas rest_defs = rest_percent_def rest_bad_def rest_good_def rest_rx_def rest_source_type_def
  rest_mac_def rest_cnu_id_def rest_dev_def rest_port_colon_def rest_port_def rest_line_def

lemma line_splits:
  "grammar_line h seg = pre_line h @ CHR '':'' # rest_line h seg"
  "grammar_line h seg = pre_port h @ CHR ''<'' # rest_port h seg"
  "grammar_line h seg = pre_dev h @ CHR ''>'' # CHR '','' # CHR ''<'' # rest_dev h seg"
  "grammar_line h seg = pre_mac h @ CHR ''>'' # CHR '','' # CHR ''<'' # rest_mac h seg"
  "grammar_line h seg = pre_source_type h @ CHR ''>'' # rest_source_type h seg"
  "grammar_line h seg = pre_rx h @ rx_tag @ rest_rx h seg"
  "grammar_line h seg = pre_good h @ CHR ''/'' # rest_good h seg"
  "grammar_line h seg = pre_bad h @ CHR '','' # rest_bad h seg"
  "grammar_line h seg = pre_percent h @ CHR ''%'' # rest_percent h seg"
  by (simp_all add: grammar_line_def header_text_def pre_defs rest_defs rx_tag_def)

lemma remove_char_at1: "remove_char (length xs + 1) (xs @ a # c # ys) = xs @ a # ys"
  by (simp add: remove_char_def)

lemma remove_char_at2: "remove_char (length xs + 2) (xs @ a # b # c # ys) = xs @ a # b # ys"
  by (simp add: remove_char_def)

lemma remove_char_mid:
  "j < length l \<Longrightarrow> remove_char (length xs + j) (xs @ l @ ys) = xs @ remove_char j l @ ys"
  by (simp add: remove_char_def)

lemma removed_lt_port:
  assumes "header_ok h"
  shows "parse_cnu_line (remove_char (length (pre_port h)) (grammar_line h seg)) = None"
proof -
  have "remove_char (length (pre_port h)) (grammar_line h seg) = pre_port h @ rest_port h seg"
    by (simp only: line_splits(2) remove_char_at)
  also have "\<dots> = pre_line h @ CHR '':'' #
      (i_ws_port h @ i_port h @ '':'' @ rest_port_colon h seg)"
    by (simp add: pre_port_def rest_port_def)
  finally show ?thesis
    using parse_reject_brackets[OF assms br_lt_port[OF assms]] by (simp only:)
qed

lemma sixth_general:
  assumes "CHR '':'' \<notin> set Y" and "CHR ''<'' \<in> set Y"
  shows "rx n (Star (In [Space]) # Open k # Plus (In [Digit]) # Close k # One (Lit CHR '':'') # ps)
           (Y @ CHR '':'' # r) st = None"
proof -
  let ?q = "One (Lit CHR '':'') # ps"
  have rej1: "rejects (In [Space]) (Open k # Plus (In [Digit]) # Close k # ?q)"
    by (simp add: rej)
  have rej2: "rejects (In [Digit]) ?q"
    by (simp add: rej)
  let ?Y1 = "dropWhile (amatch (In [Space])) Y"
  let ?Y2 = "dropWhile (amatch (In [Digit])) ?Y1"
  have D1: "dropWhile (amatch (In [Space])) (Y @ CHR '':'' # r) = ?Y1 @ CHR '':'' # r"
    by (rule dropWhile_append3) (simp add: chr_facts)
  have D2: "dropWhile (amatch (In [Digit])) (?Y1 @ CHR '':'' # r) = ?Y2 @ CHR '':'' # r"
    by (rule dropWhile_append3) (simp add: chr_facts)
  have lt: "\<not> amatch (In [Space]) CHR ''<''" "\<not> amatch (In [Digit]) CHR ''<''"
    by (simp_all add: chr_facts more_chr_facts)
  have keep: "x \<in> set (dropWhile P xs)" if "x \<in> set xs" and "\<not> P x" for x :: char and P xs
    using that by (induction xs) auto
  have "CHR ''<'' \<in> set ?Y2"
    by (intro keep assms(2) lt)
  then obtain c t where Y2: "?Y2 = c # t"
    by (cases ?Y2) auto
  then have "c \<in> set Y"
    by (metis list.set_intros(1) set_dropWhileD)
  with assms(1) have "c \<noteq> CHR '':''" by blast
  then have "rx n ?q ((c # t) @ CHR '':'' # r) st' = None" for st'
    by simp
  then show ?thesis
    by (simp only: star_det[OF rej1] D1 grp_plus_det[OF rej2] D2 Y2 if_cancel)
qed

lemma six_colons:
  assumes "CHR '':'' \<notin> set Y1" and "CHR '':'' \<notin> set Y2" and "CHR '':'' \<notin> set Y3"
    and "CHR '':'' \<notin> set Y4" and "CHR '':'' \<notin> set Y5" and "CHR '':'' \<notin> set Y6"
    and "CHR ''<'' \<in> set Y6"
  shows "rx n (head_items @ ps)
           (Y1 @ CHR '':'' # Y2 @ CHR '':'' # Y3 @ CHR '':'' # Y4 @ CHR '':'' # Y5 @ CHR '':'' #
            Y6 @ CHR '':'' # r) st = None"
  unfolding head_items_def grp_def lits_def
  apply (simp del: rx.simps)
  apply (rule seg_star_grp)
     apply (simp add: chr_facts)
    apply (simp add: disj_simps)
   apply (rule assms)
  apply (rule seg_grp)
    apply (simp add: chr_facts)
   apply (rule assms)
  apply (rule seg_grp)
    apply (simp add: chr_facts)
   apply (rule assms)
  apply (rule seg_grp)
    apply (simp add: chr_facts)
   apply (rule assms)
  apply (rule seg_star_grp_star)
      apply (simp add: chr_facts)
     apply (simp add: disj_simps)
    apply (simp add: disj_simps)
   apply (rule assms)
  apply (rule sixth_general)
   apply (rule assms)
  apply (rule assms)
  done

lemma header_colon_free:
  assumes "header_ok h"
  shows "CHR '':'' \<notin> set (i_lead h)" "CHR '':'' \<notin> set (i_ident h)"
    "CHR '':'' \<notin> set (i_timestamp h)" "CHR '':'' \<notin> set (i_level h)"
    "CHR '':'' \<notin> set (i_module h)" "CHR '':'' \<notin> set (i_ws_function h)"
    "CHR '':'' \<notin> set (i_function h)" "CHR '':'' \<notin> set (i_ws_colon h)"
    "CHR '':'' \<notin> set (i_ws_line h)" "CHR '':'' \<notin> set (i_line h)"
    "CHR '':'' \<notin> set (i_ws_port h)" "CHR '':'' \<notin> set (i_port h)"
proof -
  note D = header_ok_D[OF assms]
  have sp: "CHR '':'' \<notin> set s" if "\<forall>c\<in>set s. is_space c" for s
    using that chr_facts(3) by blast
  have dg: "CHR '':'' \<notin> set s" if "\<forall>c\<in>set s. is_digit c" for s
    using that chr_facts(1) by blast
  have wd: "CHR '':'' \<notin> set s" if "\<forall>c\<in>set s. is_word c" for s
    using that chr_facts(2) by blast
  show "CHR '':'' \<notin> set (i_lead h)" by (rule sp) (rule D(1))
  show "CHR '':'' \<notin> set (i_ident h)" by (rule dg) (rule D(3))
  show "CHR '':'' \<notin> set (i_timestamp h)" using D(5) chr_facts(1) by auto
  show "CHR '':'' \<notin> set (i_level h)" by (rule wd) (rule D(7))
  show "CHR '':'' \<notin> set (i_module h)" by (rule wd) (rule D(9))
  show "CHR '':'' \<notin> set (i_ws_function h)" by (rule sp) (rule D(10))
  show "CHR '':'' \<notin> set (i_function h)" using D(12) by blast
  show "CHR '':'' \<notin> set (i_ws_colon h)" by (rule sp) (rule D(13))
  show "CHR '':'' \<notin> set (i_ws_line h)" by (rule sp) (rule D(14))
  show "CHR '':'' \<notin> set (i_line h)" by (rule dg) (rule D(16))
  show "CHR '':'' \<notin> set (i_ws_port h)" by (rule sp) (rule D(17))
  show "CHR '':'' \<notin> set (i_port h)" by (rule dg) (rule D(19))
qed

lemma removed_colon:
  assumes "header_ok h"
  shows "parse_cnu_line (remove_char (length (pre_ident h)) (grammar_line h seg)) = None"
    "parse_cnu_line (remove_char (length (pre_timestamp h)) (grammar_line h seg)) = None"
    "parse_cnu_line (remove_char (length (pre_level h)) (grammar_line h seg)) = None"
    "parse_cnu_line (remove_char (length (pre_module h)) (grammar_line h seg)) = None"
    "parse_cnu_line (remove_char (length (pre_function h)) (grammar_line h seg)) = None"
    "parse_cnu_line (remove_char (length (pre_line h)) (grammar_line h seg)) = None"
proof -
  note cf = header_colon_free[OF assms]
  let ?f = "i_ws_function h @ i_function h @ i_ws_colon h"
  let ?l = "i_ws_line h @ i_line h"
  let ?p = "i_ws_port h @ CHR ''<'' # i_port h"
  let ?r = "rest_port_colon h seg"
  have g1: "grammar_line h seg = pre_ident h @ CHR '':'' # i_timestamp h @ CHR '':'' # i_level h
      @ CHR '':'' # i_module h @ CHR '':'' # ?f @ CHR '':'' # ?l @ CHR '':'' # ?p @ CHR '':'' # ?r"
    by (simp add: grammar_line_def header_text_def pre_defs rest_defs rx_tag_def)
  have g2: "grammar_line h seg = pre_timestamp h @ CHR '':'' # i_level h
      @ CHR '':'' # i_module h @ CHR '':'' # ?f @ CHR '':'' # ?l @ CHR '':'' # ?p @ CHR '':'' # ?r"
    by (simp add: grammar_line_def header_text_def pre_defs rest_defs rx_tag_def)
  have g3: "grammar_line h seg = pre_level h
      @ CHR '':'' # i_module h @ CHR '':'' # ?f @ CHR '':'' # ?l @ CHR '':'' # ?p @ CHR '':'' # ?r"
    by (simp add: grammar_line_def header_text_def pre_defs rest_defs rx_tag_def)
  have g4: "grammar_line h seg = pre_module h
      @ CHR '':'' # ?f @ CHR '':'' # ?l @ CHR '':'' # ?p @ CHR '':'' # ?r"
    by (simp add: grammar_line_def header_text_def pre_defs rest_defs rx_tag_def)
  have g5: "grammar_line h seg = pre_function h
      @ CHR '':'' # ?l @ CHR '':'' # ?p @ CHR '':'' # ?r"
    by (simp add: grammar_line_def header_text_def pre_defs rest_defs rx_tag_def)
  have g6: "grammar_line h seg = pre_line h @ CHR '':'' # ?p @ CHR '':'' # ?r"
    by (simp add: grammar_line_def header_text_def pre_defs rest_defs rx_tag_def)
  have r1: "remove_char (length (pre_ident h)) (grammar_line h seg) =
      (i_lead h @ i_ident h @ i_timestamp h) @ CHR '':'' # i_level h @ CHR '':'' # i_module h
      @ CHR '':'' # ?f @ CHR '':'' # ?l @ CHR '':'' # ?p @ CHR '':'' # ?r"
    by (subst g1, simp only: remove_char_at) (simp add: pre_defs)
  have r2: "remove_char (length (pre_timestamp h)) (grammar_line h seg) =
      (i_lead h @ i_ident h) @ CHR '':'' # (i_timestamp h @ i_level h) @ CHR '':'' # i_module h
      @ CHR '':'' # ?f @ CHR '':'' # ?l @ CHR '':'' # ?p @ CHR '':'' # ?r"
    by (subst g2, simp only: remove_char_at) (simp add: pre_defs)
  have r3: "remove_char (length (pre_level h)) (grammar_line h seg) =
      (i_lead h @ i_ident h) @ CHR '':'' # i_timestamp h @ CHR '':'' # (i_level h @ i_module h)
      @ CHR '':'' # ?f @ CHR '':'' # ?l @ CHR '':'' # ?p @ CHR '':'' # ?r"
    by (subst g3, simp only: remove_char_at) (simp add: pre_defs)
  have r4: "remove_char (length (pre_module h)) (grammar_line h seg) =
      (i_lead h @ i_ident h) @ CHR '':'' # i_timestamp h @ CHR '':'' # i_level h
      @ CHR '':'' # (i_module h @ ?f) @ CHR '':'' # ?l @ CHR '':'' # ?p @ CHR '':'' # ?r"
    by (subst g4, simp only: remove_char_at) (simp add: pre_defs)
  have r5: "remove_char (length (pre_function h)) (grammar_line h seg) =
      (i_lead h @ i_ident h) @ CHR '':'' # i_timestamp h @ CHR '':'' # i_level h
      @ CHR '':'' # i_module h @ CHR '':'' # (?f @ ?l) @ CHR '':'' # ?p @ CHR '':'' # ?r"
    by (subst g5, simp only: remove_char_at) (simp add: pre_defs)
  have r6: "remove_char (length (pre_line h)) (grammar_line h seg) =
      (i_lead h @ i_ident h) @ CHR '':'' # i_timestamp h @ CHR '':'' # i_level h
      @ CHR '':'' # i_module h @ CHR '':'' # ?f @ CHR '':'' # (?l @ ?p) @ CHR '':'' # ?r"
    by (subst g6, simp only: remove_char_at) (simp add: pre_defs)
  show "parse_cnu_line (remove_char (length (pre_ident h)) (grammar_line h seg)) = None"
    by (rule parse_reject_head, subst (2) r1, rule six_colons) (simp_all add: cf)
  show "parse_cnu_line (remove_char (length (pre_timestamp h)) (grammar_line h seg)) = None"
    by (rule parse_reject_head, subst (2) r2, rule six_colons) (simp_all add: cf)
  show "parse_cnu_line (remove_char (length (pre_level h)) (grammar_line h seg)) = None"
    by (rule parse_reject_head, subst (2) r3, rule six_colons) (simp_all add: cf)
  show "parse_cnu_line (remove_char (length (pre_module h)) (grammar_line h seg)) = None"
    by (rule parse_reject_head, subst (2) r4, rule six_colons) (simp_all add: cf)
  show "parse_cnu_line (remove_char (length (pre_function h)) (grammar_line h seg)) = None"
    by (rule parse_reject_head, subst (2) r5, rule six_colons) (simp_all add: cf)
  show "parse_cnu_line (remove_char (length (pre_line h)) (grammar_line h seg)) = None"
    by (rule parse_reject_head, subst (2) r6, rule six_colons) (simp_all add: cf)
qed

lemma removed_bracket:
  assumes "header_ok h" and "i_ws_bad h \<noteq> []" and "i_ws_percent h \<noteq> []"
  shows "parse_cnu_line (remove_char (length (pre_dev h)) (grammar_line h seg)) = None"
    "parse_cnu_line (remove_char (length (pre_dev h) + 1) (grammar_line h seg)) = None"
    "parse_cnu_line (remove_char (length (pre_dev h) + 2) (grammar_line h seg)) = None"
    "parse_cnu_line (remove_char (length (pre_mac h)) (grammar_line h seg)) = None"
    "parse_cnu_line (remove_char (length (pre_mac h) + 1) (grammar_line h seg)) = None"
    "parse_cnu_line (remove_char (length (pre_mac h) + 2) (grammar_line h seg)) = None"
    "parse_cnu_line (remove_char (length (pre_source_type h)) (grammar_line h seg)) = None"
    "parse_cnu_line (remove_char (length (pre_good h)) (grammar_line h seg)) = None"
    "parse_cnu_line (remove_char (length (pre_bad h)) (grammar_line h seg)) = None"
    "parse_cnu_line (remove_char (length (pre_percent h)) (grammar_line h seg)) = None"
    "j < 20 \<Longrightarrow>
       parse_cnu_line (remove_char (length (pre_rx h) + j) (grammar_line h seg)) = None"
proof -
  note D = header_ok_D[OF assms(1)]
  note rb = parse_reject_brackets[OF assms(1)]
  let ?b = "i_ws_port h @ ''<'' @ i_port h @ '':''"
  let ?Zd = "i_dev h @ '',<'' @ i_cnu_id h @ '','' @ i_mac h"
  let ?Zm = "i_mac h @ '',<'' @ i_source_type h"
  have Zd: "?Zd \<noteq> []" "\<forall>c\<in>set ?Zd. c \<noteq> CHR ''>''"
    using D(20,21,25) digit_facts(2)[OF D(23)] by auto
  have Zm: "?Zm \<noteq> []" "\<forall>c\<in>set ?Zm. c \<noteq> CHR ''>''"
    using D(24,25) digit_facts(2)[OF D(27)] by auto
  have "remove_char (length (pre_dev h)) (grammar_line h seg) =
      pre_dev h @ CHR '','' # CHR ''<'' # rest_dev h seg"
    by (simp only: line_splits(3) remove_char_at)
  also have "\<dots> = pre_line h @ CHR '':'' #
      (?b @ ?Zd @ ''>,<'' @ i_source_type h @ ''>'' @ rest_source_type h seg)"
    by (simp add: pre_defs rest_defs)
  finally show "parse_cnu_line (remove_char (length (pre_dev h)) (grammar_line h seg)) = None"
    using rb[OF br_gt_dev[OF assms(1) Zd]] by (simp only: append_assoc)
  have "remove_char (length (pre_dev h) + 1) (grammar_line h seg) =
      pre_dev h @ CHR ''>'' # CHR ''<'' # rest_dev h seg"
    by (simp only: line_splits(3) remove_char_at1)
  also have "\<dots> = pre_line h @ CHR '':'' # (?b @ i_dev h @ ''><'' @ rest_dev h seg)"
    by (simp add: pre_defs rest_defs)
  finally show "parse_cnu_line (remove_char (length (pre_dev h) + 1) (grammar_line h seg)) = None"
    using rb[OF br_comma_dev[OF assms(1)]] by (simp only: append_assoc)
  have "remove_char (length (pre_dev h) + 2) (grammar_line h seg) =
      pre_dev h @ CHR ''>'' # CHR '','' # rest_dev h seg"
    by (simp only: line_splits(3) remove_char_at2)
  also have "\<dots> = pre_line h @ CHR '':'' #
      (?b @ i_dev h @ ''>,'' @ i_cnu_id h @ '','' @ rest_cnu_id h seg)"
    by (simp add: pre_defs rest_defs)
  finally show "parse_cnu_line (remove_char (length (pre_dev h) + 2) (grammar_line h seg)) = None"
    using rb[OF br_lt_cnu[OF assms(1)]] by (simp only: append_assoc)
  have "remove_char (length (pre_mac h)) (grammar_line h seg) =
      pre_mac h @ CHR '','' # CHR ''<'' # rest_mac h seg"
    by (simp only: line_splits(4) remove_char_at)
  also have "\<dots> = pre_line h @ CHR '':'' #
      (?b @ i_dev h @ ''>,<'' @ i_cnu_id h @ '','' @ ?Zm @ ''>'' @ i_ws_rx h @ ''<''
       @ ''Rx Good/Bad,Percent'' @ rest_rx h seg)"
    by (simp add: pre_defs rest_defs rx_tag_def)
  finally show "parse_cnu_line (remove_char (length (pre_mac h)) (grammar_line h seg)) = None"
    using rb[OF br_gt_mac[OF assms(1) Zm]] by (simp only: append_assoc)
  have "remove_char (length (pre_mac h) + 1) (grammar_line h seg) =
      pre_mac h @ CHR ''>'' # CHR ''<'' # rest_mac h seg"
    by (simp only: line_splits(4) remove_char_at1)
  also have "\<dots> = pre_line h @ CHR '':'' #
      (?b @ i_dev h @ ''>,<'' @ i_cnu_id h @ '','' @ i_mac h @ ''><'' @ rest_mac h seg)"
    by (simp add: pre_defs rest_defs)
  finally show "parse_cnu_line (remove_char (length (pre_mac h) + 1) (grammar_line h seg)) = None"
    using rb[OF br_comma_mac[OF assms(1)]] by (simp only: append_assoc)
  have "remove_char (length (pre_mac h) + 2) (grammar_line h seg) =
      pre_mac h @ CHR ''>'' # CHR '','' # rest_mac h seg"
    by (simp only: line_splits(4) remove_char_at2)
  also have "\<dots> = pre_line h @ CHR '':'' #
      (?b @ i_dev h @ ''>,<'' @ i_cnu_id h @ '','' @ i_mac h @ ''>,'' @ i_source_type h @ ''>''
       @ rest_source_type h seg)"
    by (simp add: pre_defs rest_defs)
  finally show "parse_cnu_line (remove_char (length (pre_mac h) + 2) (grammar_line h seg)) = None"
    using rb[OF br_lt_source[OF assms(1)]] by (simp only: append_assoc)
  have "remove_char (length (pre_source_type h)) (grammar_line h seg) =
      pre_source_type h @ rest_source_type h seg"
    by (simp only: line_splits(5) remove_char_at)
  also have "\<dots> = pre_line h @ CHR '':'' #
      (?b @ i_dev h @ ''>,<'' @ i_cnu_id h @ '','' @ i_mac h @ ''>,<'' @ i_source_type h
       @ i_ws_rx h @ ''<Rx Good/Bad,Percent'' @ rest_rx h seg)"
    by (simp add: pre_defs rest_defs rx_tag_def)
  finally show "parse_cnu_line (remove_char (length (pre_source_type h)) (grammar_line h seg)) = None"
    using rb[OF br_gt_source[OF assms(1)]] by (simp only: append_assoc)
  have "remove_char (length (pre_good h)) (grammar_line h seg) = pre_good h @ rest_good h seg"
    by (simp only: line_splits(7) remove_char_at)
  also have "\<dots> = pre_line h @ CHR '':'' #
      (?b @ i_dev h @ ''>,<'' @ i_cnu_id h @ '','' @ i_mac h @ ''>,<'' @ i_source_type h @ ''>''
       @ i_ws_rx h @ ''<Rx Good/Bad,Percent'' @ i_ws_good h @ i_good h @ i_ws_bad h @ i_bad h
       @ '','' @ rest_bad h seg)"
    by (simp add: pre_defs rest_defs)
  finally show "parse_cnu_line (remove_char (length (pre_good h)) (grammar_line h seg)) = None"
    using rb[OF br_slash[OF assms(1,2)]] by (simp only: append_assoc)
  have "remove_char (length (pre_bad h)) (grammar_line h seg) = pre_bad h @ rest_bad h seg"
    by (simp only: line_splits(8) remove_char_at)
  also have "\<dots> = pre_line h @ CHR '':'' #
      (?b @ i_dev h @ ''>,<'' @ i_cnu_id h @ '','' @ i_mac h @ ''>,<'' @ i_source_type h @ ''>''
       @ i_ws_rx h @ ''<Rx Good/Bad,Percent'' @ i_ws_good h @ i_good h @ ''/'' @ i_ws_bad h
       @ i_bad h @ i_ws_percent h @ i_percent h @ ''%>'' @ i_text h @ ''per channel'' @ seg)"
    by (simp add: pre_defs rest_defs)
  finally show "parse_cnu_line (remove_char (length (pre_bad h)) (grammar_line h seg)) = None"
    using rb[OF br_comma_bad[OF assms]] by (simp only: append_assoc)
  have "remove_char (length (pre_percent h)) (grammar_line h seg) =
      pre_percent h @ rest_percent h seg"
    by (simp only: line_splits(9) remove_char_at)
  also have "\<dots> = pre_line h @ CHR '':'' #
      (?b @ i_dev h @ ''>,<'' @ i_cnu_id h @ '','' @ i_mac h @ ''>,<'' @ i_source_type h @ ''>''
       @ i_ws_rx h @ ''<Rx Good/Bad,Percent'' @ i_ws_good h @ i_good h @ ''/'' @ i_ws_bad h
       @ i_bad h @ '','' @ i_ws_percent h @ i_percent h @ ''>'' @ i_text h @ ''per channel''
       @ seg)"
    by (simp add: pre_defs rest_defs)
  finally show "parse_cnu_line (remove_char (length (pre_percent h)) (grammar_line h seg)) = None"
    using rb[OF br_percent[OF assms]] by (simp only: append_assoc)
  show "parse_cnu_line (remove_char (length (pre_rx h) + j) (grammar_line h seg)) = None"
    if j: "j < 20"
  proof -
    have "j < length rx_tag" using j by (simp add: rx_tag_def)
    then have "remove_char (length (pre_rx h) + j) (grammar_line h seg) =
        pre_rx h @ remove_char j rx_tag @ rest_rx h seg"
      by (simp only: line_splits(6) remove_char_mid)
    also have "\<dots> = pre_line h @ CHR '':'' #
        (?b @ i_dev h @ ''>,<'' @ i_cnu_id h @ '','' @ i_mac h @ ''>,<'' @ i_source_type h @ ''>''
         @ i_ws_rx h @ remove_char j rx_tag @ i_ws_good h @ i_good h @ ''/'' @ rest_good h seg)"
      by (simp add: pre_defs rest_defs)
    finally show ?thesis
      using rb[OF br_rx_tag[OF assms(1) j]] by (simp only: append_assoc)
  qed
qed

lemma removed_literal:
  assumes "header_ok h" and "i_ws_bad h \<noteq> []" and "i_ws_percent h \<noteq> []"
    and "i \<in> set (literal_positions h)"
  shows "parse_cnu_line (remove_char i (grammar_line h seg)) = None"
proof -
  note c = removed_colon[OF assms(1)] removed_lt_port[OF assms(1)]
  note b = removed_bracket[OF assms(1-3)]
  from assms(4) have "i \<in> set [length (pre_ident h), length (pre_timestamp h),
        length (pre_level h), length (pre_module h), length (pre_function h),
        length (pre_line h), length (pre_port h), length (pre_dev h), length (pre_dev h) + 1,
        length (pre_dev h) + 2, length (pre_mac h), length (pre_mac h) + 1,
        length (pre_mac h) + 2, length (pre_source_type h)]
      \<or> (\<exists>j. (0 \<le> j \<and> j < 20) \<and> i = length (pre_rx h) + j)
      \<or> i \<in> set [length (pre_good h), length (pre_bad h), length (pre_percent h)]"
    by (simp only: literal_positions_def set_append set_map set_upt Un_iff image_iff
        atLeastLessThan_iff Bex_def)
  then consider
      "i = length (pre_ident h)" | "i = length (pre_timestamp h)" | "i = length (pre_level h)"
    | "i = length (pre_module h)" | "i = length (pre_function h)" | "i = length (pre_line h)"
    | "i = length (pre_port h)"
    | "i = length (pre_dev h)" | "i = length (pre_dev h) + 1" | "i = length (pre_dev h) + 2"
    | "i = length (pre_mac h)" | "i = length (pre_mac h) + 1" | "i = length (pre_mac h) + 2"
    | "i = length (pre_source_type h)"
    | j where "j < 20" "i = length (pre_rx h) + j"
    | "i = length (pre_good h)" | "i = length (pre_bad h)" | "i = length (pre_percent h)"
    by (simp only: list.set insert_iff empty_iff) blast
  then show ?thesis
    by cases (simp_all only: c b)
qed

lemma colon_splits:
  "grammar_line h seg = pre_ident h @ CHR '':'' # rest_ident h seg"
  "grammar_line h seg = pre_timestamp h @ CHR '':'' # rest_timestamp h seg"
  "grammar_line h seg = pre_level h @ CHR '':'' # rest_level h seg"
  "grammar_line h seg = pre_module h @ CHR '':'' # rest_module h seg"
  "grammar_line h seg = pre_function h @ CHR '':'' # rest_function h seg"
  by (simp_all add: grammar_line_def header_text_def pre_defs rest_defs rx_tag_def
      rest_function_def rest_module_def rest_level_def rest_timestamp_def rest_ident_def)

lemma nth_append_length_plus1: "(xs @ a # b # ys) ! (length xs + 1) = b"
  by (simp add: nth_append)

lemma nth_append_length_plus2: "(xs @ a # b # c # ys) ! (length xs + 2) = c"
  by (simp add: nth_append)

lemma map_nth_mid:
  "map ((!) (xs @ l @ ys)) (map (\<lambda>j. length xs + j) [0..<length l]) = l"
proof -
  have "map ((!) (xs @ l @ ys)) (map (\<lambda>j. length xs + j) [0..<length l]) =
        map ((!) l) [0..<length l]"
    by (simp add: nth_append)
  then show ?thesis by (simp only: map_nth)
qed

lemma chars_at_literals:
  "map ((!) (grammar_line h seg)) (literal_positions h) =
     ''::::::<>,<>,<><Rx Good/Bad,Percent/,%''"
proof -
  let ?g = "grammar_line h seg"
  have c: "?g ! length (pre_ident h) = CHR '':''" "?g ! length (pre_timestamp h) = CHR '':''"
    "?g ! length (pre_level h) = CHR '':''" "?g ! length (pre_module h) = CHR '':''"
    "?g ! length (pre_function h) = CHR '':''"
    by (subst colon_splits(1), rule nth_append_length)
      (subst colon_splits(2), rule nth_append_length,
       subst colon_splits(3), rule nth_append_length,
       subst colon_splits(4), rule nth_append_length,
       subst colon_splits(5), rule nth_append_length)
  have b: "?g ! length (pre_line h) = CHR '':''" "?g ! length (pre_port h) = CHR ''<''"
    "?g ! length (pre_dev h) = CHR ''>''" "?g ! (length (pre_dev h) + 1) = CHR '',''"
    "?g ! (length (pre_dev h) + 2) = CHR ''<''"
    "?g ! length (pre_mac h) = CHR ''>''" "?g ! (length (pre_mac h) + 1) = CHR '',''"
    "?g ! (length (pre_mac h) + 2) = CHR ''<''"
    "?g ! length (pre_source_type h) = CHR ''>''"
    "?g ! length (pre_good h) = CHR ''/''" "?g ! length (pre_bad h) = CHR '',''"
    "?g ! length (pre_percent h) = CHR ''%''"
    by (subst line_splits(1), rule nth_append_length)
      (subst line_splits(2), rule nth_append_length,
       subst line_splits(3), rule nth_append_length,
       subst line_splits(3), rule nth_append_length_plus1,
       subst line_splits(3), rule nth_append_length_plus2,
       subst line_splits(4), rule nth_append_length,
       subst line_splits(4), rule nth_append_length_plus1,
       subst line_splits(4), rule nth_append_length_plus2,
       subst line_splits(5), rule nth_append_length,
       subst line_splits(7), rule nth_append_length,
       subst line_splits(8), rule nth_append_length,
       subst line_splits(9), rule nth_append_length)
  have len: "length rx_tag = 20"
    by (simp add: rx_tag_def)
  have r: "map ((!) ?g) (map (\<lambda>j. length (pre_rx h) + j) [0..<20]) = rx_tag"
    using map_nth_mid[of "pre_rx h" rx_tag "rest_rx h seg"]
    by (simp only: line_splits(6) len)
  show ?thesis
    unfolding literal_positions_def
    by (simp only: map_append r list.map c b) (simp add: rx_tag_def)
qed

lemma loose_header_facts:
  "header_ok loose_header" "text_ok (i_text loose_header)"
  "grammar_line loose_header ''per channel'' = loose_line"
  "loose_positions loose_header = [16, 24, 65, 67, 68, 69, 70, 71, 72, 73, 74, 75, 76, 77]"
  "map ((!) loose_line) (loose_positions loose_header) = '':,>per channel''"
  by code_simp+

section \<open>Claims on the report and the driving loop\<close>

lemma short_line_parse:
  "parse_cnu_line (short_line ''0'') =
     Some \<lparr>timestamp = ''2.5'', trace_level = ''L'', module = ''M'', function_name = ''f'',
           source_line = ''3'', moca_port = ''4'', moca_port_dev = ''d'', cnu_id = ''5'',
           cnu_mac = ''m'', source_type = ''0'', rx_good = ''6'', rx_bad = ''7'',
           rx_bad_percent = ''8.9'', channels = []\<rparr>"
  "parse_cnu_line (short_line ''1'') =
     Some \<lparr>timestamp = ''2.5'', trace_level = ''L'', module = ''M'', function_name = ''f'',
           source_line = ''3'', moca_port = ''4'', moca_port_dev = ''d'', cnu_id = ''5'',
           cnu_mac = ''m'', source_type = ''1'', rx_good = ''6'', rx_bad = ''7'',
           rx_bad_percent = ''8.9'', channels = []\<rparr>"
  "parse_cnu_line (short_line ''00'') =
     Some \<lparr>timestamp = ''2.5'', trace_level = ''L'', module = ''M'', function_name = ''f'',
           source_line = ''3'', moca_port = ''4'', moca_port_dev = ''d'', cnu_id = ''5'',
           cnu_mac = ''m'', source_type = ''00'', rx_good = ''6'', rx_bad = ''7'',
           rx_bad_percent = ''8.9'', channels = []\<rparr>"
  by code_simp+

lemma rstrip_short_line: "rstrip_nl (short_line st @ ''\<newline>'') = short_line st"
  by (simp add: rstrip_nl_def short_line_def nl_def)

lemma junk_rejected:
  "parse_cnu_line ''boot ok'' = None" "parse_cnu_line ''link up'' = None"
  by code_simp+

text \<open>
  C6. For every parsed record the Source write of its block is
  \<open>Source:     Micronode\<close> exactly when source_type is the string \<open>0\<close>, and
  \<open>Source:     CNU\<close> for every other source_type.
\<close>

theorem source_type_mapping:
  "parse_cnu_line l = Some p \<Longrightarrow>
     (render p ! 9 = ''Source:     Micronode\<newline>'' \<longleftrightarrow> source_type p = ''0'')
     \<and> (source_type p \<noteq> ''0'' \<longrightarrow> render p ! 9 = ''Source:     CNU\<newline>'')"
  by (simp add: source_line source_str_def)

theorem source_type_mapping_witness:
  "render (the (parse_cnu_line (short_line ''0''))) ! 9 = ''Source:     Micronode\<newline>''
   \<and> render (the (parse_cnu_line (short_line ''1''))) ! 9 = ''Source:     CNU\<newline>''
   \<and> render (the (parse_cnu_line (short_line ''00''))) ! 9 = ''Source:     CNU\<newline>''"
  using source_type_mapping[OF short_line_parse(1)] source_type_mapping[OF short_line_parse(2)]
    source_type_mapping[OF short_line_parse(3)]
  by (simp add: short_line_parse)

text \<open>
  C7. The writes of a run are the blocks of the matching lines in input order,
  followed, when the debug flag is set and some line was rejected, by the debug
  header and one \<open>NO MATCH:\<close> write for each rejected line in input order.
\<close>

theorem order_preservation:
  "main debug lines =
     concat (map render (matched lines))
     @ (if debug \<and> rejected lines \<noteq> []
        then debug_header # map no_match_line (rejected lines) else [])"
  by (rule main_eq)

lemma mixed_input:
  "matched [''boot ok\<newline>'', short_line ''0'' @ ''\<newline>'', ''link up\<newline>'', short_line ''1''] =
     [the (parse_cnu_line (short_line ''0'')), the (parse_cnu_line (short_line ''1''))]"
  "rejected [''boot ok\<newline>'', short_line ''0'' @ ''\<newline>'', ''link up\<newline>'', short_line ''1''] =
     [''boot ok'', ''link up'']"
proof -
  have r: "rstrip_nl ''boot ok\<newline>'' = ''boot ok''" "rstrip_nl ''link up\<newline>'' = ''link up''"
    "rstrip_nl (short_line ''1'') = short_line ''1''"
    by (simp_all add: rstrip_nl_def nl_def short_line_def)
  show "matched [''boot ok\<newline>'', short_line ''0'' @ ''\<newline>'', ''link up\<newline>'', short_line ''1''] =
     [the (parse_cnu_line (short_line ''0'')), the (parse_cnu_line (short_line ''1''))]"
    by (simp add: matched_def r rstrip_short_line junk_rejected short_line_parse
        List.map_filter_simps)
  show "rejected [''boot ok\<newline>'', short_line ''0'' @ ''\<newline>'', ''link up\<newline>'', short_line ''1''] =
     [''boot ok'', ''link up'']"
    by (simp add: rejected_def r rstrip_short_line junk_rejected short_line_parse)
qed

theorem order_preservation_witness:
  "main True [''boot ok\<newline>'', short_line ''0'' @ ''\<newline>'', ''link up\<newline>'', short_line ''1''] =
     render (the (parse_cnu_line (short_line ''0'')))
     @ render (the (parse_cnu_line (short_line ''1'')))
     @ [debug_header, ''NO MATCH: boot ok\<newline>'', ''NO MATCH: link up\<newline>'']"
  using order_preservation[of True
      "[''boot ok\<newline>'', short_line ''0'' @ ''\<newline>'', ''link up\<newline>'', short_line ''1'']"]
  by (simp add: mixed_input no_match_line_def)

text \<open>
  C9. Without the debug flag a run writes the blocks of the matching lines and
  nothing else: neither the debug header nor any \<open>NO MATCH:\<close> write, whatever
  the lines are; with the flag and no rejected line it writes what it writes
  without the flag.
\<close>

theorem debug_suppression:
  "main False lines = concat (map render (matched lines))
   \<and> debug_header \<notin> set (main False lines)
   \<and> (\<forall>w\<in>set (main False lines). \<not> prefix ''NO MATCH: '' w)
   \<and> (rejected lines = [] \<longrightarrow> main True lines = main False lines)"
proof -
  have out: "main False lines = concat (map render (matched lines))"
    by (simp add: main_eq)
  have "w \<noteq> debug_header \<and> \<not> prefix ''NO MATCH: '' w" if "w \<in> set (main False lines)" for w
  proof -
    from that out obtain p where "w \<in> set (render p)" by auto
    then have "w \<noteq> [] \<and> hd w \<in> set ''-TLMFCSR ''" by (rule render_chunk_head)
    then show ?thesis
      by (cases w) (auto simp: debug_header_def)
  qed
  then show ?thesis
    by (auto simp: main_eq)
qed

theorem debug_suppression_witness:
  "main False [''boot ok\<newline>'', ''link up\<newline>''] = []
   \<and> debug_header \<notin> set (main False [''boot ok\<newline>'', ''link up\<newline>''])
   \<and> main True [short_line ''0'' @ ''\<newline>''] = main False [short_line ''0'' @ ''\<newline>'']"
proof -
  have r: "rstrip_nl ''boot ok\<newline>'' = ''boot ok''" "rstrip_nl ''link up\<newline>'' = ''link up''"
    by (simp_all add: rstrip_nl_def nl_def)
  have none: "rejected [short_line ''0'' @ ''\<newline>''] = []"
    by (simp add: rejected_def rstrip_short_line short_line_parse)
  have "main False [''boot ok\<newline>'', ''link up\<newline>''] = []"
    by (simp add: main_eq matched_def r junk_rejected List.map_filter_simps)
  with debug_suppression[of "[''boot ok\<newline>'', ''link up\<newline>'']"]
    debug_suppression[of "[short_line ''0'' @ ''\<newline>'']"] none
  show ?thesis by simp
qed

text \<open>
  C4, as the code has it. The dividing line is 51 hyphens and a newline; it is the
  first and the last write of every block. For any two records that follow each
  other among the matching lines of the input, whatever rejected lines lie between
  them, the closing divider of the first block is followed at once by the opening
  divider of the second: the writes of a run are the blocks before, the first
  block, the second block, the blocks after and the debug section, with nothing in
  between.
\<close>

theorem dividers_51:
  assumes "matched lines = ps @ [p, q] @ qs"
  shows "hd (render p) = replicate 51 CHR ''-'' @ ''\<newline>''
     \<and> last (render p) = replicate 51 CHR ''-'' @ ''\<newline>''
     \<and> hd (render q) = replicate 51 CHR ''-'' @ ''\<newline>''
     \<and> last (render q) = replicate 51 CHR ''-'' @ ''\<newline>''
     \<and> main debug lines =
           concat (map render ps)
           @ butlast (render p)
           @ [replicate 51 CHR ''-'' @ ''\<newline>'', replicate 51 CHR ''-'' @ ''\<newline>'']
           @ tl (render q)
           @ concat (map render qs)
           @ (if debug \<and> rejected lines \<noteq> []
              then debug_header # map no_match_line (rejected lines) else [])"
proof -
  have d: "divider = replicate 51 CHR ''-'' @ ''\<newline>''"
    by (simp add: divider_51 nl_def)
  have p: "render p = butlast (render p) @ [divider]"
    by (simp add: render_def butlast_append)
  have q: "render q = divider # tl (render q)"
    by (simp add: render_def)
  have "concat (map render (matched lines)) =
      concat (map render ps) @ render p @ render q @ concat (map render qs)"
    by (simp add: assms)
  also have "\<dots> = concat (map render ps) @ butlast (render p) @ [divider, divider]
      @ tl (render q) @ concat (map render qs)"
    using p q by (metis append_Cons append_Nil append_assoc)
  finally have "main debug lines =
      concat (map render ps) @ butlast (render p) @ [divider, divider]
      @ tl (render q) @ concat (map render qs)
      @ (if debug \<and> rejected lines \<noteq> []
         then debug_header # map no_match_line (rejected lines) else [])"
    by (simp add: main_eq)
  then show ?thesis
    by (simp add: render_ends d)
qed

theorem dividers_51_witness:
  "main True [short_line ''0'' @ ''\<newline>'', ''boot ok\<newline>'', short_line ''1''] =
     butlast (render (the (parse_cnu_line (short_line ''0''))))
     @ [replicate 51 CHR ''-'' @ ''\<newline>'', replicate 51 CHR ''-'' @ ''\<newline>'']
     @ tl (render (the (parse_cnu_line (short_line ''1''))))
     @ [debug_header, ''NO MATCH: boot ok\<newline>'']"
proof -
  have r: "rstrip_nl ''boot ok\<newline>'' = ''boot ok''"
    "rstrip_nl (short_line ''1'') = short_line ''1''"
    by (simp_all add: rstrip_nl_def nl_def short_line_def)
  have m: "matched [short_line ''0'' @ ''\<newline>'', ''boot ok\<newline>'', short_line ''1''] =
      [] @ [the (parse_cnu_line (short_line ''0'')), the (parse_cnu_line (short_line ''1''))] @ []"
    by (simp add: matched_def r rstrip_short_line junk_rejected short_line_parse
        List.map_filter_simps)
  have j: "rejected [short_line ''0'' @ ''\<newline>'', ''boot ok\<newline>'', short_line ''1''] = [''boot ok'']"
    by (simp add: rejected_def r rstrip_short_line junk_rejected short_line_parse)
  from dividers_51[OF m, of True] show ?thesis
    by (simp add: j no_match_line_def)
qed

theorem dividers_53_counterexample:
  "hd (render (the (parse_cnu_line (short_line ''0'')))) \<noteq> replicate 53 CHR ''-'' @ ''\<newline>''"
  by (simp add: render_def divider_def eval_nat_numeral)

section \<open>Claims on single lines\<close>

text \<open>
  C1, as the specification states it, fails: in the example line the CNU id is
  followed by \<open>:\<close>, the pattern asks for \<open>,\<close> there, and the line is rejected, so
  that a run on it writes nothing.
\<close>

theorem spec_example_counterexample:
  "parse_cnu_line spec_example = None \<and> main False [spec_example] = []"
  by code_simp

text \<open>
  C1, as the code has it. The example line with \<open>,\<close> after the CNU id is matched,
  and a run on it writes the block of the specification: MoCA Port \<open>2 (eth0)\<close>,
  CNU ID \<open>7\<close>, CNU MAC \<open>AA:BB:CC:DD:EE:FF\<close>, Source \<open>CNU\<close>, Rx Good \<open>100\<close>,
  Rx Bad \<open>2\<close>, Rx % Bad \<open>1.96\<close> and the two channel lines with bandIndex \<open>0\<close> and
  \<open>1\<close> in this order, the first with \<open>Power: -3 dBm?\<close>.
\<close>

theorem comma_example_block:
  "main False [comma_example] =
     [''---------------------------------------------------\<newline>'',
      ''Timestamp:  1699999999.123\<newline>'',
      ''Level:      INFO\<newline>'',
      ''Module:     moca\<newline>'',
      ''Function:   handleCnuStats\<newline>'',
      ''Line:       45\<newline>'',
      ''MoCA Port:  2 (eth0)\<newline>'',
      ''CNU ID:     7\<newline>'',
      ''CNU MAC:    AA:BB:CC:DD:EE:FF\<newline>'',
      ''Source:     CNU\<newline>'',
      ''Rx Good:    100\<newline>'',
      ''Rx Bad:     2\<newline>'',
      ''Rx % Bad:   1.96\<newline>'',
      ''Channel Stats:\<newline>'',
      ''  BandIndex: 0 | RX bits/sym: 4 | Power: -3 dBm? | SNR: 30 dB | RX PHY: 100 Mbps | TX bits/sym: 4 | TX PHY: 200 Mbps\<newline>'',
      ''  BandIndex: 1 | RX bits/sym: 5 | Power: 2 dBm? | SNR: 28 dB | RX PHY: 90 Mbps | TX bits/sym: 3 | TX PHY: 180 Mbps\<newline>'',
      ''---------------------------------------------------\<newline>'']"
  by code_simp

text \<open>
  C10. The timestamp and the percent slot take any non-empty run of digits and
  dots: lines with the timestamp \<open>1.2.3\<close>, with the timestamp \<open>...\<close> and with the
  percent \<open>1..2\<close> are accepted and the text is stored as it is.
\<close>

theorem loose_numeric_class:
  "map_option timestamp
     (parse_cnu_line ''1:1.2.3:L:M:f:3:<4:d>,<5,m>,<1> <Rx Good/Bad,Percent 6/ 7, 8.9%>per channel'')
     = Some ''1.2.3''
   \<and> map_option timestamp
     (parse_cnu_line ''1:...:L:M:f:3:<4:d>,<5,m>,<1> <Rx Good/Bad,Percent 6/ 7, 8.9%>per channel'')
     = Some ''...''
   \<and> map_option rx_bad_percent
     (parse_cnu_line ''1:2.5:L:M:f:3:<4:d>,<5,m>,<1> <Rx Good/Bad,Percent 6/ 7, 1..2%>per channel'')
     = Some ''1..2''"
  by code_simp

section \<open>Claims on the lines of the grammar\<close>

lemma example_header_ok:
  "header_ok example_header" "i_ws_bad example_header \<noteq> []" "i_ws_percent example_header \<noteq> []"
  "text_ok (i_text example_header)" "between '' ''" "list_all chan_ok example_channels"
  "list_all chan_ok [minus5_channel]" "header_ok tight_header" "text_ok (i_text tight_header)"
  by code_simp+

lemma example_header_line:
  "grammar_line example_header (segment '' '' example_channels) = comma_example"
  by (simp add: grammar_line_def header_text_def segment_def example_header_def
      example_channels_def chan_text_def comma_example_def)

text \<open>
  C2, as the code has it. For every line built from pieces that conform to the
  header and channel grammar of the two patterns (at least one whitespace character
  after \<open>/\<close> and after \<open>,\<close> of the Rx tag), with N channel groups, parse_cnu_line
  succeeds; the fields of the record are the injected texts, except that
  moca_port_dev and cnu_mac are the injected texts with the whitespace at both ends
  stripped; the channel list has the N injected groups in injection order, rxPower
  with its sign.
\<close>

theorem round_trip:
  assumes "header_ok h" and "i_ws_bad h \<noteq> []" and "i_ws_percent h \<noteq> []"
    and "text_ok (i_text h)" and "between sep" and "list_all chan_ok cs"
  shows "parse_cnu_line (grammar_line h (segment sep cs)) =
     Some \<lparr>timestamp = i_timestamp h, trace_level = i_level h, module = i_module h,
           function_name = i_function h, source_line = i_line h, moca_port = i_port h,
           moca_port_dev = strip (i_dev h), cnu_id = i_cnu_id h, cnu_mac = strip (i_mac h),
           source_type = i_source_type h, rx_good = i_good h, rx_bad = i_bad h,
           rx_bad_percent = i_percent h, channels = map channel_of cs\<rparr>"
  using parse_grammar_channels[OF assms] by (simp add: record_of_def)

theorem round_trip_witness:
  "parse_cnu_line comma_example =
     Some \<lparr>timestamp = ''1699999999.123'', trace_level = ''INFO'', module = ''moca'',
           function_name = ''handleCnuStats'', source_line = ''45'', moca_port = ''2'',
           moca_port_dev = ''eth0'', cnu_id = ''7'', cnu_mac = ''AA:BB:CC:DD:EE:FF'',
           source_type = ''1'', rx_good = ''100'', rx_bad = ''2'', rx_bad_percent = ''1.96'',
           channels =
             [\<lparr>bandIndex = ''0'', rxBitsPerSym = ''4'', rxPower = ''-3'', rxSnr = ''30'',
               rxPhyRate = ''100'', txBitsPerSym = ''4'', txPhyRate = ''200''\<rparr>,
              \<lparr>bandIndex = ''1'', rxBitsPerSym = ''5'', rxPower = ''2'', rxSnr = ''28'',
               rxPhyRate = ''90'', txBitsPerSym = ''3'', txPhyRate = ''180''\<rparr>]\<rparr>
   \<and> map_option (map rxPower \<circ> channels)
       (parse_cnu_line (grammar_line example_header (segment '' '' [minus5_channel]))) =
     Some [''-5'']"
proof -
  have s: "strip ''eth0'' = ''eth0''" "strip ''AA:BB:CC:DD:EE:FF'' = ''AA:BB:CC:DD:EE:FF''"
    by code_simp+
  from round_trip[OF example_header_ok(1-6)] round_trip[OF example_header_ok(1-5,7)]
  show ?thesis
    by (simp add: example_header_line)
      (simp add: example_header_def example_channels_def minus5_channel_def channel_of_def s)
qed

theorem round_trip_counterexample:
  "header_ok spaced_header \<and> text_ok (i_text spaced_header)
   \<and> i_dev spaced_header = '' eth0 ''
   \<and> map_option moca_port_dev (parse_cnu_line (grammar_line spaced_header '''')) = Some ''eth0''"
  by code_simp

text \<open>
  C5, as the code has it. In the Rx tag the whitespace between \<open>/\<close> and the bad
  count and between \<open>,\<close> and the percent is required: a line that conforms to the
  rest of the grammar is accepted exactly when both runs are non-empty, and then
  rx_good, rx_bad and rx_bad_percent are the injected texts.
\<close>

theorem rx_tag_whitespace:
  assumes "header_ok h" and "text_ok (i_text h)" and "nl \<notin> set seg"
  shows "(parse_cnu_line (grammar_line h seg) \<noteq> None
            \<longleftrightarrow> i_ws_bad h \<noteq> [] \<and> i_ws_percent h \<noteq> [])
     \<and> (i_ws_bad h \<noteq> [] \<and> i_ws_percent h \<noteq> [] \<longrightarrow>
          map_option rx_good (parse_cnu_line (grammar_line h seg)) = Some (i_good h)
          \<and> map_option rx_bad (parse_cnu_line (grammar_line h seg)) = Some (i_bad h)
          \<and> map_option rx_bad_percent (parse_cnu_line (grammar_line h seg)) = Some (i_percent h))"
  using parse_grammar_line[OF assms] by (simp add: record_of_def)

theorem rx_tag_whitespace_witness:
  "parse_cnu_line (grammar_line example_header '''') \<noteq> None
   \<and> map_option rx_bad (parse_cnu_line (grammar_line example_header '''')) = Some ''2''
   \<and> parse_cnu_line (grammar_line tight_header '''') = None"
  using rx_tag_whitespace[OF example_header_ok(1,4), of "''''"]
    rx_tag_whitespace[OF example_header_ok(8,9), of "''''"] example_header_ok(2,3)
  by (simp add: example_header_def tight_header_def)

theorem rx_tag_whitespace_counterexample:
  "parse_cnu_line ''12:1699999999.123:INFO:moca:handleCnuStats:45: <2:eth0>,<7,AA:BB:CC:DD:EE:FF>,<1> <Rx Good/Bad,Percent 100/2,1.96%> blah per channel '' = None"
  by code_simp

text \<open>
  C8. A line whose header conforms to the grammar and whose channel-data segment
  holds no channel group is not rejected: its record has the empty channel list,
  and its block is the thirteen header writes, \<open>Channel Stats:\<close> and then at once
  the closing divider.
\<close>

theorem zero_channels:
  assumes "header_ok h" and "i_ws_bad h \<noteq> []" and "i_ws_percent h \<noteq> []"
    and "text_ok (i_text h)" and "nl \<notin> set seg" and "findall channel_regex seg = []"
  shows "\<exists>p. parse_cnu_line (grammar_line h seg) = Some p \<and> channels p = []
     \<and> length (render p) = 15 \<and> render p ! 13 = ''Channel Stats:\<newline>''
     \<and> render p ! 14 = divider"
  using parse_grammar_line[OF assms(1,4,5)] assms(2,3,6)
  by (simp add: findall_dropWhile_space record_of_def render_def eval_nat_numeral)

theorem zero_channels_witness:
  "\<exists>p. parse_cnu_line (grammar_line example_header '''') = Some p \<and> channels p = []
     \<and> length (render p) = 15 \<and> render p ! 13 = ''Channel Stats:\<newline>''
     \<and> render p ! 14 = divider"
proof -
  have "nl \<notin> set ''''" by simp
  moreover have "findall channel_regex '''' = []" by code_simp
  ultimately show ?thesis
    by (rule zero_channels[OF example_header_ok(1-4)])
qed

text \<open>
  C3, as the code has it. parse_cnu_line rejects a line exactly when the whole of
  \<open>line_regex\<close> does not match it: every match gives a complete record. In a
  matching line of the grammar the characters at \<open>literal_positions\<close> are the
  fixed delimiters named there, and removing any one of them makes parse_cnu_line
  reject the line; so does removing the \<open>:\<close> after the module field whatever the
  whitespace of the Rx tag is.
\<close>

theorem all_or_nothing:
  "(parse_cnu_line l = None \<longleftrightarrow> rx_match line_regex l = None)
   \<and> map ((!) (grammar_line h seg)) (literal_positions h) =
       ''::::::<>,<>,<><Rx Good/Bad,Percent/,%''
   \<and> (header_ok h \<and> i_ws_bad h \<noteq> [] \<and> i_ws_percent h \<noteq> []
        \<and> i \<in> set (literal_positions h) \<longrightarrow>
        parse_cnu_line (remove_char i (grammar_line h seg)) = None)
   \<and> (header_ok h \<longrightarrow>
        parse_cnu_line (remove_char (module_colon h) (grammar_line h seg)) = None)"
  using parse_None_iff chars_at_literals removed_literal module_colon_removed by blast

lemma example_literal_positions:
  "literal_positions example_header =
     [2, 17, 22, 27, 42, 45, 47, 54, 55, 56, 76, 77, 78, 80,
      82, 83, 84, 85, 86, 87, 88, 89, 90, 91, 92, 93, 94, 95, 96, 97, 98, 99, 100, 101,
      106, 109, 115]"
  by code_simp

theorem all_or_nothing_witness:
  "map ((!) comma_example)
     [2, 17, 22, 27, 42, 45, 47, 54, 55, 56, 76, 77, 78, 80,
      82, 83, 84, 85, 86, 87, 88, 89, 90, 91, 92, 93, 94, 95, 96, 97, 98, 99, 100, 101,
      106, 109, 115] = ''::::::<>,<>,<><Rx Good/Bad,Percent/,%''
   \<and> remove_char 27 comma_example =
     ''12:1699999999.123:INFO:mocahandleCnuStats:45: <2:eth0>,<7,AA:BB:CC:DD:EE:FF>,<1> <Rx Good/Bad,Percent 100/ 2, 1.96%> blah per channel <0:4/-3/30/100,4/200><1:5/2/28/90,3/180>''
   \<and> parse_cnu_line (remove_char 27 comma_example) = None
   \<and> parse_cnu_line (remove_char 2 comma_example) = None
   \<and> parse_cnu_line (remove_char 47 comma_example) = None
   \<and> parse_cnu_line (remove_char 55 comma_example) = None
   \<and> parse_cnu_line (remove_char 90 comma_example) = None
   \<and> parse_cnu_line (remove_char 115 comma_example) = None"
proof -
  note t = all_or_nothing[of comma_example example_header "segment '' '' example_channels"]
  have pos: "i \<in> set (literal_positions example_header)"
    if "i \<in> {2, 27, 47, 55, 90, 115}" for i
    using that by (auto simp: example_literal_positions)
  have rm: "parse_cnu_line (remove_char i comma_example) = None"
    if "i \<in> {2, 27, 47, 55, 90, 115}" for i
    using all_or_nothing[of comma_example example_header "segment '' '' example_channels" i]
      example_header_ok(1-3) pos[OF that]
    by (simp add: example_header_line)
  have "remove_char 27 comma_example =
     ''12:1699999999.123:INFO:mocahandleCnuStats:45: <2:eth0>,<7,AA:BB:CC:DD:EE:FF>,<1> <Rx Good/Bad,Percent 100/ 2, 1.96%> blah per channel <0:4/-3/30/100,4/200><1:5/2/28/90,3/180>''"
    by (simp add: remove_char_def comma_example_def eval_nat_numeral)
  moreover from t have "map ((!) comma_example)
     [2, 17, 22, 27, 42, 45, 47, 54, 55, 56, 76, 77, 78, 80,
      82, 83, 84, 85, 86, 87, 88, 89, 90, 91, 92, 93, 94, 95, 96, 97, 98, 99, 100, 101,
      106, 109, 115] = ''::::::<>,<>,<><Rx Good/Bad,Percent/,%''"
    by (simp only: example_header_line example_literal_positions)
  moreover have "parse_cnu_line (remove_char 27 comma_example) = None"
    "parse_cnu_line (remove_char 2 comma_example) = None"
    "parse_cnu_line (remove_char 47 comma_example) = None"
    "parse_cnu_line (remove_char 55 comma_example) = None"
    "parse_cnu_line (remove_char 90 comma_example) = None"
    "parse_cnu_line (remove_char 115 comma_example) = None"
    by (rule rm, simp)+
  ultimately show ?thesis
    by (intro conjI)
qed

theorem all_or_nothing_counterexample:
  "parse_cnu_line comma_example \<noteq> None
   \<and> remove_char 0 comma_example =
     ''2:1699999999.123:INFO:moca:handleCnuStats:45: <2:eth0>,<7,AA:BB:CC:DD:EE:FF>,<1> <Rx Good/Bad,Percent 100/ 2, 1.96%> blah per channel <0:4/-3/30/100,4/200><1:5/2/28/90,3/180>''
   \<and> parse_cnu_line (remove_char 0 comma_example) \<noteq> None
   \<and> parse_cnu_line loose_line \<noteq> None
   \<and> remove_char 16 loose_line =
     ''1:2.5:L:M:f:3:<45:d>,<5,6,m>,<1> <Rx Good/Bad,Percent 6/ 7, 8.9%>>per channelper channel''
   \<and> parse_cnu_line (remove_char 16 loose_line) \<noteq> None
   \<and> remove_char 24 loose_line =
     ''1:2.5:L:M:f:3:<4:5:d>,<56,m>,<1> <Rx Good/Bad,Percent 6/ 7, 8.9%>>per channelper channel''
   \<and> parse_cnu_line (remove_char 24 loose_line) \<noteq> None
   \<and> remove_char 65 loose_line =
     ''1:2.5:L:M:f:3:<4:5:d>,<5,6,m>,<1> <Rx Good/Bad,Percent 6/ 7, 8.9%>per channelper channel''
   \<and> parse_cnu_line (remove_char 65 loose_line) \<noteq> None
   \<and> remove_char 67 loose_line =
     ''1:2.5:L:M:f:3:<4:5:d>,<5,6,m>,<1> <Rx Good/Bad,Percent 6/ 7, 8.9%>>er channelper channel''
   \<and> parse_cnu_line (remove_char 67 loose_line) \<noteq> None
   \<and> parse_cnu_line (remove_char 72 loose_line) \<noteq> None
   \<and> parse_cnu_line (remove_char 77 loose_line) \<noteq> None"
  by code_simp

end
